theory Spec2Isabelle
  imports Main "HOL-Library.Signed_Division"
begin

section \<open>Board model of CheckersGame.cpp\<close>

text \<open>
  The source keeps one global \<^verbatim>\<open>static int board[8][8]\<close> that only ever holds the five
  values of \<^verbatim>\<open>enum Piece\<close>. A board is modelled as a function from row and column to
  the piece stored there, \<open>b r c\<close> standing for \<^verbatim>\<open>board[r][c]\<close>; every function of the
  source that reads or writes the global takes the board as an argument and returns the
  updated one. Coordinates are C \<^verbatim>\<open>int\<close>s (they go below zero before \<^verbatim>\<open>inBounds\<close>
  rejects them), all far from overflow, so they are \<open>int\<close>. Indexing outside the array is
  undefined behaviour in the source, which reads and writes only squares that passed
  \<^verbatim>\<open>inBounds\<close> or came out of \<^verbatim>\<open>parseSquare\<close>; where a theorem depends on the square it
  assumes \<open>inBounds r c\<close>.
\<close>

datatype Piece = EMPTY | W_MAN | W_KING | B_MAN | B_KING

datatype Player = WHITE | BLACK

record Move =
  fr :: int
  fc :: int
  tr :: int
  tc :: int
  isCapture :: bool
  cr :: int
  cc :: int

type_synonym board = "int \<Rightarrow> int \<Rightarrow> Piece"

definition setCell :: "board \<Rightarrow> int \<Rightarrow> int \<Rightarrow> Piece \<Rightarrow> board" where
  \<comment> \<open>\<^verbatim>\<open>board[r][c] = p;\<close>\<close>
  "setCell b r c p = b(r := (b r)(c := p))"

definition inBounds :: "int \<Rightarrow> int \<Rightarrow> bool" where
  "inBounds r c \<longleftrightarrow> r \<ge> 0 \<and> r < 8 \<and> c \<ge> 0 \<and> c < 8"

definition isDarkSquare :: "int \<Rightarrow> int \<Rightarrow> bool" where
  \<comment> \<open>\<^verbatim>\<open>(r + c) % 2 == 1\<close>, with the remainder of C++ (truncated towards zero).\<close>
  "isDarkSquare r c \<longleftrightarrow> (r + c) smod 2 = 1"

definition isKing :: "Piece \<Rightarrow> bool" where
  "isKing p \<longleftrightarrow> p = W_KING \<or> p = B_KING"

definition belongsTo :: "Piece \<Rightarrow> Player \<Rightarrow> bool" where
  "belongsTo p pl =
     (if p = EMPTY then False
      else if pl = WHITE then p = W_MAN \<or> p = W_KING
      else p = B_MAN \<or> p = B_KING)"

definition isEnemy :: "Piece \<Rightarrow> Piece \<Rightarrow> bool" where
  "isEnemy a b =
     (if a = EMPTY \<or> b = EMPTY then False
      else (let aWhite = (a = W_MAN \<or> a = W_KING);
                bWhite = (b = W_MAN \<or> b = W_KING)
            in aWhite \<noteq> bWhite))"

definition rows8 :: "int list" where
  \<comment> \<open>the index range of \<^verbatim>\<open>for (int r = 0; r < 8; r++)\<close>\<close>
  "rows8 = [0, 1, 2, 3, 4, 5, 6, 7]"

definition initBoard :: "board \<Rightarrow> board" where
  \<comment> \<open>three passes over the array, as in the source: clear, white men, black men\<close>
  "initBoard b0 =
     (let b1 = fold (\<lambda>r b. fold (\<lambda>c b. setCell b r c EMPTY) rows8 b) rows8 b0;
          b2 = fold (\<lambda>r b. fold (\<lambda>c b. if isDarkSquare r c then setCell b r c W_MAN else b)
                                  rows8 b) [0, 1, 2] b1;
          b3 = fold (\<lambda>r b. fold (\<lambda>c b. if isDarkSquare r c then setCell b r c B_MAN else b)
                                  rows8 b) [5, 6, 7] b2
      in b3)"

definition forwardDir :: "Player \<Rightarrow> int" where
  "forwardDir pl = (if pl = WHITE then 1 else - 1)"

section \<open>Move generation\<close>

definition dirsOf :: "Piece \<Rightarrow> Player \<Rightarrow> (int \<times> int) list" where
  \<comment> \<open>the vector \<^verbatim>\<open>dirs\<close> built at the head of both generators\<close>
  "dirsOf p pl =
     (if isKing p then [(1, 1), (1, - 1), (- 1, 1), (- 1, - 1)]
      else (let d = forwardDir pl in [(d, 1), (d, - 1)]))"

definition captureDir :: "board \<Rightarrow> int \<Rightarrow> int \<Rightarrow> Piece \<Rightarrow> int \<times> int \<Rightarrow> Move list" where
  \<comment> \<open>one iteration of the loop over \<^verbatim>\<open>dirs\<close> in \<^verbatim>\<open>captureMovesFrom\<close>:
      the moves it pushes\<close>
  "captureDir b r c p d =
     (case d of (dr, dc) \<Rightarrow>
        (let r1 = r + dr; c1 = c + dc;
             r2 = r + 2 * dr; c2 = c + 2 * dc
         in if \<not> inBounds r1 c1 \<or> \<not> inBounds r2 c2 then []
            else if b r2 c2 \<noteq> EMPTY then []
            else if isEnemy p (b r1 c1)
                 then [\<lparr>fr = r, fc = c, tr = r2, tc = c2, isCapture = True, cr = r1, cc = c1\<rparr>]
                 else []))"

definition captureMovesFrom :: "board \<Rightarrow> int \<Rightarrow> int \<Rightarrow> Player \<Rightarrow> Move list" where
  "captureMovesFrom b r c pl =
     (let p = b r c
      in if \<not> belongsTo p pl then []
         else concat (map (captureDir b r c p) (dirsOf p pl)))"

definition simpleDir :: "board \<Rightarrow> int \<Rightarrow> int \<Rightarrow> int \<times> int \<Rightarrow> Move list" where
  \<comment> \<open>one iteration of the loop over \<^verbatim>\<open>dirs\<close> in \<^verbatim>\<open>simpleMovesFrom\<close>\<close>
  "simpleDir b r c d =
     (case d of (dr, dc) \<Rightarrow>
        (let r2 = r + dr; c2 = c + dc
         in if \<not> inBounds r2 c2 then []
            else if b r2 c2 \<noteq> EMPTY then []
            else [\<lparr>fr = r, fc = c, tr = r2, tc = c2, isCapture = False, cr = - 1, cc = - 1\<rparr>]))"

definition simpleMovesFrom :: "board \<Rightarrow> int \<Rightarrow> int \<Rightarrow> Player \<Rightarrow> Move list" where
  "simpleMovesFrom b r c pl =
     (let p = b r c
      in if \<not> belongsTo p pl then []
         else concat (map (simpleDir b r c) (dirsOf p pl)))"

definition allCaptures :: "board \<Rightarrow> Player \<Rightarrow> Move list" where
  \<comment> \<open>row-major scan of all 64 cells, appending each cell's captures\<close>
  "allCaptures b pl =
     concat (map (\<lambda>r. concat (map (\<lambda>c. captureMovesFrom b r c pl) rows8)) rows8)"

definition allLegalMoves :: "board \<Rightarrow> Player \<Rightarrow> Move list" where
  "allLegalMoves b pl =
     (let caps = allCaptures b pl
      in if caps \<noteq> [] then caps
         else concat (map (\<lambda>r. concat (map (\<lambda>c. simpleMovesFrom b r c pl) rows8)) rows8))"

definition countPieces :: "board \<Rightarrow> Player \<Rightarrow> int" where
  "countPieces b pl =
     fold (\<lambda>r cnt. fold (\<lambda>c cnt. if belongsTo (b r c) pl then cnt + 1 else cnt) rows8 cnt)
          rows8 0"

definition sameMove :: "Move \<Rightarrow> int \<Rightarrow> int \<Rightarrow> int \<Rightarrow> int \<Rightarrow> bool" where
  "sameMove a r0 c0 r1 c1 \<longleftrightarrow> fr a = r0 \<and> fc a = c0 \<and> tr a = r1 \<and> tc a = c1"

section \<open>Applying a move, promotion\<close>

definition applyMove :: "board \<Rightarrow> Move \<Rightarrow> board" where
  "applyMove b mv =
     (let p = b (fr mv) (fc mv);
          b1 = setCell b (tr mv) (tc mv) p;
          b2 = setCell b1 (fr mv) (fc mv) EMPTY
      in if isCapture mv then setCell b2 (cr mv) (cc mv) EMPTY else b2)"

definition maybePromote :: "board \<Rightarrow> int \<Rightarrow> int \<Rightarrow> board" where
  \<comment> \<open>both tests read the piece \<^verbatim>\<open>p\<close> fetched before the first assignment\<close>
  "maybePromote b r c =
     (let p = b r c;
          b1 = (if p = W_MAN \<and> r = 7 then setCell b r c W_KING else b)
      in if p = B_MAN \<and> r = 0 then setCell b1 r c B_KING else b1)"

section \<open>Reading a square\<close>

text \<open>
  \<^verbatim>\<open>parseSquare\<close> scans the token twice, once for the first letter and once for the
  first digit. Characters are bytes; \<^verbatim>\<open>isalpha\<close>, \<^verbatim>\<open>isdigit\<close> and \<^verbatim>\<open>tolower\<close> are
  those of the default C locale. The result is \<open>None\<close> where the source returns
  \<^verbatim>\<open>false\<close>, and the pair written to the out-parameters \<^verbatim>\<open>r\<close>, \<^verbatim>\<open>c\<close> otherwise.
\<close>

definition isalpha_c :: "char \<Rightarrow> bool" where
  "isalpha_c ch =
     (let n = (of_char ch :: nat) in (65 \<le> n \<and> n \<le> 90) \<or> (97 \<le> n \<and> n \<le> 122))"

definition isdigit_c :: "char \<Rightarrow> bool" where
  "isdigit_c ch = (let n = (of_char ch :: nat) in 48 \<le> n \<and> n \<le> 57)"

definition tolower_c :: "char \<Rightarrow> char" where
  "tolower_c ch =
     (let n = (of_char ch :: nat) in if 65 \<le> n \<and> n \<le> 90 then char_of (n + 32) else ch)"

definition parseSquare :: "string \<Rightarrow> (int \<times> int) option" where
  "parseSquare token =
     (if length token < 2 then None
      else
        (let file = (case find isalpha_c token of
                       Some ch \<Rightarrow> int (of_char (tolower_c ch)) | None \<Rightarrow> 0);
             rank = (case find isdigit_c token of
                       Some ch \<Rightarrow> int (of_char ch) | None \<Rightarrow> 0)
         in if file < 97 \<or> file > 104 then None
            else if rank < 49 \<or> rank > 56 then None
            else (let c = file - 97; r = rank - 49
                  in if inBounds r c then Some (r, c) else None)))"

section \<open>The game loop\<close>

text \<open>
  \<^verbatim>\<open>main\<close> is two nested \<^verbatim>\<open>while (true)\<close> loops around the global board, the variable
  \<^verbatim>\<open>turn\<close> and, inside the inner loop, the position \<^verbatim>\<open>curR\<close>, \<^verbatim>\<open>curC\<close> of the capturing
  piece. The model is a state machine whose state is at the head of one of the two loops
  (or past the outer loop), and whose step is one iteration of that loop. The standard
  input is the list of whitespace-separated tokens still to be read; the step returns
  the tokens left. What the program prints is abstracted to a list of events: the
  game-over line, the rejection line, and a marker for each call of \<^verbatim>\<open>applyMove\<close> and
  \<^verbatim>\<open>maybePromote\<close> and for the assignment that switches \<^verbatim>\<open>turn\<close>.
\<close>

datatype WinReason = NoPieces | NoLegalMoves

datatype Rejection =
    BadFormat              \<comment> \<open>"Invalid input format. Use like b6 a5"\<close>
  | NotDarkSquare          \<comment> \<open>"You can only move to dark squares."\<close>
  | NotOwnPiece            \<comment> \<open>"That piece is not yours."\<close>
  | DestinationOccupied    \<comment> \<open>"Destination is not empty."\<close>
  | NotInLegalSet          \<comment> \<open>"Illegal move."\<close>
  | BadSquare              \<comment> \<open>"Bad square input."\<close>
  | NotAForcedLanding      \<comment> \<open>"You must continue capturing (choose one of the shown squares)."\<close>

datatype Event =
    GameOver Player WinReason   \<comment> \<open>winner and cause, as printed before \<^verbatim>\<open>break\<close>\<close>
  | Rejected Rejection
  | Applied Move
  | PromoteCall int int         \<comment> \<open>a call \<^verbatim>\<open>maybePromote(r, c)\<close>\<close>
  | TurnSwitch

datatype Phase =
    TurnLoop            \<comment> \<open>at the head of the outer loop\<close>
  | ChainLoop int int   \<comment> \<open>at the head of the inner loop, with \<^verbatim>\<open>curR\<close>, \<^verbatim>\<open>curC\<close>\<close>
  | Finished            \<comment> \<open>past the outer loop: \<^verbatim>\<open>return 0\<close>\<close>

record Game =
  board :: board
  turn :: Player
  phase :: Phase

definition opponent :: "Player \<Rightarrow> Player" where
  \<comment> \<open>\<^verbatim>\<open>(turn == WHITE) ? BLACK : WHITE\<close>\<close>
  "opponent pl = (if pl = WHITE then BLACK else WHITE)"

definition endTurn :: "Game \<Rightarrow> int \<Rightarrow> int \<Rightarrow> Game \<times> Event list" where
  \<comment> \<open>the tail of the outer loop body: promotion, then the switch of turns\<close>
  "endTurn g r c =
     (g\<lparr>board := maybePromote (board g) r c, turn := opponent (turn g), phase := TurnLoop\<rparr>,
      [PromoteCall r c, TurnSwitch])"

definition turnIter :: "Game \<Rightarrow> string list \<Rightarrow> Game \<times> string list \<times> Event list" where
  "turnIter g toks =
     (let b = board g; pl = turn g
      in if countPieces b WHITE = 0 then (g\<lparr>phase := Finished\<rparr>, toks, [GameOver BLACK NoPieces])
         else if countPieces b BLACK = 0
              then (g\<lparr>phase := Finished\<rparr>, toks, [GameOver WHITE NoPieces])
         else
           (let legal = allLegalMoves b pl
            in if legal = []
               then (g\<lparr>phase := Finished\<rparr>, toks, [GameOver (opponent pl) NoLegalMoves])
               else
                 (case toks of
                    t1 # t2 # rest \<Rightarrow>
                      (case parseSquare t1 of
                         None \<Rightarrow> (g, rest, [Rejected BadFormat])
                       | Some (r0, c0) \<Rightarrow>
                      (case parseSquare t2 of
                         None \<Rightarrow> (g, rest, [Rejected BadFormat])
                       | Some (r1, c1) \<Rightarrow>
                           if \<not> isDarkSquare r1 c1 then (g, rest, [Rejected NotDarkSquare])
                           else if \<not> belongsTo (b r0 c0) pl then (g, rest, [Rejected NotOwnPiece])
                           else if b r1 c1 \<noteq> EMPTY then (g, rest, [Rejected DestinationOccupied])
                           else
                             (case find (\<lambda>m. sameMove m r0 c0 r1 c1) legal of
                                None \<Rightarrow> (g, rest, [Rejected NotInLegalSet])
                              | Some mv \<Rightarrow>
                                  (let g1 = g\<lparr>board := applyMove b mv\<rparr>
                                   in if isCapture mv
                                      then (g1\<lparr>phase := ChainLoop (tr mv) (tc mv)\<rparr>, rest,
                                            [Applied mv])
                                      else (case endTurn g1 (tr mv) (tc mv) of
                                              (g2, evs) \<Rightarrow> (g2, rest, Applied mv # evs))))))
                  | _ \<Rightarrow> (g\<lparr>phase := Finished\<rparr>, [], []))))"

definition chainIter ::
  "Game \<Rightarrow> int \<Rightarrow> int \<Rightarrow> string list \<Rightarrow> Game \<times> string list \<times> Event list" where
  \<comment> \<open>at the end of the input \<^verbatim>\<open>cin >> tnext\<close> leaves \<^verbatim>\<open>tnext\<close> empty, which does not parse\<close>
  "chainIter g curR curC toks =
     (let b = board g; pl = turn g;
          nextCaps = captureMovesFrom b curR curC pl
      in if nextCaps = [] then (case endTurn g curR curC of (g1, evs) \<Rightarrow> (g1, toks, evs))
         else
           (let tnext = (case toks of [] \<Rightarrow> [] | t # _ \<Rightarrow> t);
                rest = (case toks of [] \<Rightarrow> [] | _ # ts \<Rightarrow> ts)
            in case parseSquare tnext of
                 None \<Rightarrow> (g, rest, [Rejected BadSquare])
               | Some (nr, nc) \<Rightarrow>
                   (case find (\<lambda>m. tr m = nr \<and> tc m = nc) nextCaps of
                      None \<Rightarrow> (g, rest, [Rejected NotAForcedLanding])
                    | Some mv \<Rightarrow>
                        (g\<lparr>board := applyMove b mv, phase := ChainLoop (tr mv) (tc mv)\<rparr>, rest,
                         [Applied mv]))))"

definition step :: "Game \<Rightarrow> string list \<Rightarrow> Game \<times> string list \<times> Event list" where
  "step g toks =
     (case phase g of
        TurnLoop \<Rightarrow> turnIter g toks
      | ChainLoop r c \<Rightarrow> chainIter g r c toks
      | Finished \<Rightarrow> (g, toks, []))"

fun run :: "nat \<Rightarrow> Game \<Rightarrow> string list \<Rightarrow> Game \<times> string list \<times> Event list" where
  "run 0 g toks = (g, toks, [])"
| "run (Suc n) g toks =
     (case step g toks of
        (g1, toks1, evs1) \<Rightarrow>
          (case run n g1 toks1 of (g2, toks2, evs2) \<Rightarrow> (g2, toks2, evs1 @ evs2)))"

definition newGame :: "board \<Rightarrow> Game" where
  \<comment> \<open>the state when the outer loop is entered; \<open>b0\<close> is the array before \<^verbatim>\<open>initBoard\<close>\<close>
  "newGame b0 = \<lparr>board = initBoard b0, turn = WHITE, phase = TurnLoop\<rparr>"

section \<open>Boards that play can reach\<close>

inductive reachable :: "board \<Rightarrow> bool" where
  reach_init: "reachable (initBoard b0)"
| reach_legal: "reachable b \<Longrightarrow> m \<in> set (allLegalMoves b pl) \<Longrightarrow> reachable (applyMove b m)"
| reach_chain:
    "reachable b \<Longrightarrow> inBounds r c \<Longrightarrow> m \<in> set (captureMovesFrom b r c pl) \<Longrightarrow>
     reachable (applyMove b m)"
| reach_promote: "reachable b \<Longrightarrow> inBounds r c \<Longrightarrow> reachable (maybePromote b r c)"

section \<open>Traces\<close>

text \<open>
  Two readings of a run, used to state where promotion happens. \<open>restingSquare\<close> is the
  square of the capturing piece that the state carries inside a chain. \<open>promotesAtRest\<close>
  scans the events of a run with the square \<open>cur\<close> on which the piece moved in the
  current turn stands: it accepts when every \<open>PromoteCall\<close> is for that square and is
  directly followed by the \<open>TurnSwitch\<close>, and every \<open>TurnSwitch\<close> directly follows such a
  call.
\<close>

definition restingSquare :: "Phase \<Rightarrow> (int \<times> int) option" where
  "restingSquare ph = (case ph of ChainLoop r c \<Rightarrow> Some (r, c) | _ \<Rightarrow> None)"

fun promotesAtRest :: "(int \<times> int) option \<Rightarrow> Event list \<Rightarrow> bool" where
  "promotesAtRest cur [] = True"
| "promotesAtRest cur (Applied mv # es) = promotesAtRest (Some (tr mv, tc mv)) es"
| "promotesAtRest cur (PromoteCall r c # TurnSwitch # es) =
     (cur = Some (r, c) \<and> promotesAtRest None es)"
| "promotesAtRest cur (PromoteCall r c # es) = False"
| "promotesAtRest cur (TurnSwitch # es) = False"
| "promotesAtRest cur (e # es) = promotesAtRest cur es"

section \<open>Boards used as concrete inputs\<close>

definition emptyBoard :: board where
  "emptyBoard = (\<lambda>r c. EMPTY)"

definition captureBoard :: board where
  \<comment> \<open>a white man on b3, a black man on c4 in front of it, d5 free behind\<close>
  "captureBoard = setCell (setCell emptyBoard 2 1 W_MAN) 3 2 B_MAN"

definition whiteOnlyBoard :: board where
  \<comment> \<open>one white man, no black piece\<close>
  "whiteOnlyBoard = setCell emptyBoard 2 1 W_MAN"

definition blockedBoard :: board where
  \<comment> \<open>a black man on a2 whose only forward square, b1, holds a white man\<close>
  "blockedBoard = setCell (setCell emptyBoard 1 0 B_MAN) 0 1 W_MAN"

definition chainBoard :: board where
  \<comment> \<open>a white man on c4 with two jumps ahead of it: over d5 to e6, over f7 to g8\<close>
  "chainBoard = setCell (setCell (setCell emptyBoard 3 2 W_MAN) 4 3 B_MAN) 6 5 B_MAN"

definition midChainBoard :: board where
  \<comment> \<open>\<open>chainBoard\<close> after the first jump\<close>
  "midChainBoard = setCell (setCell emptyBoard 5 4 W_MAN) 6 5 B_MAN"

definition promoBoard :: board where
  \<comment> \<open>a white man on b7, one step from the last row, and a black man far away\<close>
  "promoBoard = setCell (setCell emptyBoard 6 1 W_MAN) 2 5 B_MAN"

section \<open>Basic facts\<close>

lemma setCell_apply:
  "setCell b r c p r' c' = (if r' = r \<and> c' = c then p else b r' c')"
  by (simp add: setCell_def)

lemma set_rows8: "set rows8 = {0..7}"
  by (auto simp: rows8_def)

lemma inBounds_rows8: "inBounds r c \<longleftrightarrow> r \<in> set rows8 \<and> c \<in> set rows8"
  by (auto simp: set_rows8 inBounds_def)

lemma smod2_nonneg: "0 \<le> (x::int) \<Longrightarrow> x smod 2 = x mod 2"
  by (simp add: signed_modulo_int_def sgn_if)

lemma isDarkSquare_inBounds: "inBounds r c \<Longrightarrow> isDarkSquare r c \<longleftrightarrow> (r + c) mod 2 = 1"
  by (simp add: isDarkSquare_def inBounds_def smod2_nonneg)

lemma belongsTo_EMPTY [simp]: "\<not> belongsTo EMPTY pl"
  by (simp add: belongsTo_def)

lemma isEnemy_EMPTY [simp]: "\<not> isEnemy EMPTY q" "\<not> isEnemy p EMPTY"
  by (simp_all add: isEnemy_def)

lemma isEnemy_belongsTo:
  "belongsTo p pl \<Longrightarrow> isEnemy p q \<longleftrightarrow> belongsTo q (opponent pl)"
  by (cases p; cases q; cases pl) (simp_all add: isEnemy_def belongsTo_def opponent_def)

lemma applyMove_apply:
  "applyMove b mv r c =
     (if isCapture mv \<and> r = cr mv \<and> c = cc mv then EMPTY
      else if r = fr mv \<and> c = fc mv then EMPTY
      else if r = tr mv \<and> c = tc mv then b (fr mv) (fc mv)
      else b r c)"
  by (auto simp: applyMove_def Let_def setCell_apply)

lemma maybePromote_apply:
  "maybePromote b r c r' c' =
     (if r' = r \<and> c' = c \<and> b r c = W_MAN \<and> r = 7 then W_KING
      else if r' = r \<and> c' = c \<and> b r c = B_MAN \<and> r = 0 then B_KING
      else b r' c')"
  by (auto simp: maybePromote_def Let_def setCell_apply)

lemma captureBoard_cells:
  "captureBoard r c = (if r = 3 \<and> c = 2 then B_MAN else if r = 2 \<and> c = 1 then W_MAN else EMPTY)"
  by (simp add: captureBoard_def setCell_apply emptyBoard_def)

section \<open>What the generators return\<close>

lemma set_captureDir:
  "set (captureDir b r c p (dr, dc)) =
     (if inBounds (r + dr) (c + dc) \<and> inBounds (r + 2 * dr) (c + 2 * dc) \<and>
         b (r + 2 * dr) (c + 2 * dc) = EMPTY \<and> isEnemy p (b (r + dr) (c + dc))
      then {\<lparr>fr = r, fc = c, tr = r + 2 * dr, tc = c + 2 * dc, isCapture = True,
             cr = r + dr, cc = c + dc\<rparr>}
      else {})"
  by (simp add: captureDir_def Let_def)

lemma set_simpleDir:
  "set (simpleDir b r c (dr, dc)) =
     (if inBounds (r + dr) (c + dc) \<and> b (r + dr) (c + dc) = EMPTY
      then {\<lparr>fr = r, fc = c, tr = r + dr, tc = c + dc, isCapture = False,
             cr = - 1, cc = - 1\<rparr>}
      else {})"
  by (simp add: simpleDir_def Let_def)

lemma set_dirsOf:
  "set (dirsOf p pl) =
     {(dr, dc). dr \<in> {1, - 1} \<and> dc \<in> {1, - 1} \<and> (isKing p \<or> dr = forwardDir pl)}"
  by (auto simp: dirsOf_def Let_def forwardDir_def)

lemma set_captureMovesFrom:
  "set (captureMovesFrom b r c pl) =
     (if belongsTo (b r c) pl
      then (\<Union>d \<in> set (dirsOf (b r c) pl). set (captureDir b r c (b r c) d))
      else {})"
  by (simp add: captureMovesFrom_def Let_def)

lemma set_simpleMovesFrom:
  "set (simpleMovesFrom b r c pl) =
     (if belongsTo (b r c) pl
      then (\<Union>d \<in> set (dirsOf (b r c) pl). set (simpleDir b r c d))
      else {})"
  by (simp add: simpleMovesFrom_def Let_def)

lemma inBounds_mid:
  "inBounds r c \<Longrightarrow> inBounds (r + 2 * dr) (c + 2 * dc) \<Longrightarrow> inBounds (r + dr) (c + dc)"
  by (auto simp: inBounds_def)

lemma capture_mem_iff:
  "m \<in> set (captureMovesFrom b r c pl) \<longleftrightarrow>
     belongsTo (b r c) pl \<and>
     (\<exists>dr dc. dr \<in> {1, - 1} \<and> dc \<in> {1, - 1} \<and> (isKing (b r c) \<or> dr = forwardDir pl) \<and>
        inBounds (r + dr) (c + dc) \<and> inBounds (r + 2 * dr) (c + 2 * dc) \<and>
        b (r + 2 * dr) (c + 2 * dc) = EMPTY \<and> isEnemy (b r c) (b (r + dr) (c + dc)) \<and>
        m = \<lparr>fr = r, fc = c, tr = r + 2 * dr, tc = c + 2 * dc, isCapture = True,
             cr = r + dr, cc = c + dc\<rparr>)"
  unfolding set_captureMovesFrom set_dirsOf
  by (auto simp: set_captureDir split: if_splits)

lemma simple_mem_iff:
  "m \<in> set (simpleMovesFrom b r c pl) \<longleftrightarrow>
     belongsTo (b r c) pl \<and>
     (\<exists>dr dc. dr \<in> {1, - 1} \<and> dc \<in> {1, - 1} \<and> (isKing (b r c) \<or> dr = forwardDir pl) \<and>
        inBounds (r + dr) (c + dc) \<and> b (r + dr) (c + dc) = EMPTY \<and>
        m = \<lparr>fr = r, fc = c, tr = r + dr, tc = c + dc, isCapture = False,
             cr = - 1, cc = - 1\<rparr>)"
  unfolding set_simpleMovesFrom set_dirsOf
  by (auto simp: set_simpleDir split: if_splits)

lemma allCaptures_mem_iff:
  "m \<in> set (allCaptures b pl) \<longleftrightarrow>
     (\<exists>r c. inBounds r c \<and> m \<in> set (captureMovesFrom b r c pl))"
  by (auto simp: allCaptures_def inBounds_rows8)

lemma allCaptures_isCapture: "m \<in> set (allCaptures b pl) \<Longrightarrow> isCapture m"
  by (auto simp: allCaptures_mem_iff capture_mem_iff)

lemma legal_capture_mem:
  "m \<in> set (allLegalMoves b pl) \<Longrightarrow> isCapture m \<Longrightarrow> m \<in> set (allCaptures b pl)"
  by (auto simp: allLegalMoves_def Let_def simple_mem_iff split: if_splits)

lemma legal_mem_cases:
  assumes "m \<in> set (allLegalMoves b pl)"
  shows "\<exists>r c. inBounds r c \<and>
           (m \<in> set (captureMovesFrom b r c pl) \<or> m \<in> set (simpleMovesFrom b r c pl))"
proof (cases "allCaptures b pl = []")
  case False
  with assms have "m \<in> set (allCaptures b pl)" by (simp add: allLegalMoves_def)
  then show ?thesis by (auto simp: allCaptures_mem_iff)
next
  case True
  with assms show ?thesis by (auto simp: allLegalMoves_def inBounds_rows8)
qed

lemma concat_map_product:
  "concat (map (\<lambda>r. concat (map (\<lambda>c. f r c) cs)) rs) =
   concat (map (\<lambda>(r, c). f r c) (List.product rs cs))"
  by (induction rs) (simp_all add: comp_def)

lemma concat_map_filter_nonempty:
  "(\<And>x. x \<in> set xs \<Longrightarrow> \<not> P x \<Longrightarrow> f x = []) \<Longrightarrow>
   concat (map f (filter P xs)) = concat (map f xs)"
  by (induction xs) auto

lemma whiteOnlyBoard_cells:
  "whiteOnlyBoard r c = (if r = 2 \<and> c = 1 then W_MAN else EMPTY)"
  by (simp add: whiteOnlyBoard_def setCell_apply emptyBoard_def)

lemma whiteOnlyBoard_allCaptures: "allCaptures whiteOnlyBoard WHITE = []"
  by (simp add: allCaptures_def captureMovesFrom_def rows8_def whiteOnlyBoard_cells belongsTo_def
      dirsOf_def isKing_def forwardDir_def captureDir_def inBounds_def isEnemy_def Let_def)

lemma captureBoard_captures:
  "captureMovesFrom captureBoard 2 1 WHITE =
     [\<lparr>fr = 2, fc = 1, tr = 4, tc = 3, isCapture = True, cr = 3, cc = 2\<rparr>]"
  by (simp add: captureMovesFrom_def captureBoard_cells belongsTo_def dirsOf_def isKing_def
      forwardDir_def captureDir_def inBounds_def isEnemy_def)

lemma captureBoard_allCaptures: "allCaptures captureBoard WHITE \<noteq> []"
proof -
  have "\<lparr>fr = 2, fc = 1, tr = 4, tc = 3, isCapture = True, cr = 3, cc = 2\<rparr>
          \<in> set (allCaptures captureBoard WHITE)"
    unfolding allCaptures_mem_iff
    by (rule exI [of _ 2], rule exI [of _ 1]) (simp add: captureBoard_captures inBounds_def)
  then show ?thesis by auto
qed

text \<open>
  Claim C1. Mandatory capture: when \<open>allCaptures\<close> finds a capture for the player,
  \<open>allLegalMoves\<close> returns exactly that list, and every move in it is a capture; when
  there is none, it returns the simple moves of the player's pieces, cell after cell in
  row-major order. (The source scans all 64 cells; the cells that do not hold a piece of
  the player contribute nothing.)
\<close>

theorem allLegalMoves_mandatory_capture:
  "(allCaptures b pl \<noteq> [] \<longrightarrow>
      allLegalMoves b pl = allCaptures b pl \<and> (\<forall>m \<in> set (allLegalMoves b pl). isCapture m)) \<and>
   (allCaptures b pl = [] \<longrightarrow>
      allLegalMoves b pl =
        concat (map (\<lambda>(r, c). simpleMovesFrom b r c pl)
                    (filter (\<lambda>(r, c). belongsTo (b r c) pl) (List.product rows8 rows8))))"
proof -
  have "concat (map (\<lambda>(r, c). simpleMovesFrom b r c pl)
                    (filter (\<lambda>(r, c). belongsTo (b r c) pl) (List.product rows8 rows8))) =
        concat (map (\<lambda>(r, c). simpleMovesFrom b r c pl) (List.product rows8 rows8))"
    by (rule concat_map_filter_nonempty) (auto simp: simpleMovesFrom_def)
  then show ?thesis
    by (auto simp: allLegalMoves_def Let_def concat_map_product dest: allCaptures_isCapture)
qed

theorem allLegalMoves_mandatory_capture_witness:
  "allCaptures captureBoard WHITE \<noteq> [] \<and>
   allLegalMoves captureBoard WHITE = allCaptures captureBoard WHITE \<and>
   allCaptures whiteOnlyBoard WHITE = [] \<and>
   allLegalMoves whiteOnlyBoard WHITE =
     [\<lparr>fr = 2, fc = 1, tr = 3, tc = 2, isCapture = False, cr = - 1, cc = - 1\<rparr>,
      \<lparr>fr = 2, fc = 1, tr = 3, tc = 0, isCapture = False, cr = - 1, cc = - 1\<rparr>]"
  using allLegalMoves_mandatory_capture [of captureBoard WHITE] captureBoard_allCaptures
    allLegalMoves_mandatory_capture [of whiteOnlyBoard WHITE] whiteOnlyBoard_allCaptures
  by (simp add: rows8_def whiteOnlyBoard_cells belongsTo_def simpleMovesFrom_def
      dirsOf_def isKing_def forwardDir_def simpleDir_def inBounds_def Let_def)

text \<open>
  Claim C4. For a square \<open>(r, c)\<close> of the board and a diagonal direction \<open>(dr, dc)\<close>,
  \<open>captureMovesFrom\<close> emits the capture in that direction (landing two steps away, over
  the square one step away) exactly when the square holds a piece of the player, the
  direction belongs to the piece (any diagonal for a king; for a man the row must grow
  for WHITE and shrink for BLACK), the adjacent square holds an enemy of the piece, and
  the landing square is on the board and empty.
\<close>

theorem captureMovesFrom_emits_iff:
  assumes "inBounds r c" and "dr \<in> {1, - 1}" and "dc \<in> {1, - 1}"
  shows "\<lparr>fr = r, fc = c, tr = r + 2 * dr, tc = c + 2 * dc, isCapture = True,
          cr = r + dr, cc = c + dc\<rparr> \<in> set (captureMovesFrom b r c pl) \<longleftrightarrow>
         belongsTo (b r c) pl \<and>
         (isKing (b r c) \<or> dr = (if pl = WHITE then 1 else - 1)) \<and>
         isEnemy (b r c) (b (r + dr) (c + dc)) \<and>
         inBounds (r + 2 * dr) (c + 2 * dc) \<and> b (r + 2 * dr) (c + 2 * dc) = EMPTY"
  using assms inBounds_mid [of r c dr dc]
  by (auto simp: capture_mem_iff forwardDir_def)

theorem captureMovesFrom_emits_iff_witness:
  "inBounds 2 1 \<and> (1::int) \<in> {1, - 1} \<and>
   \<lparr>fr = 2, fc = 1, tr = 4, tc = 3, isCapture = True, cr = 3, cc = 2\<rparr>
     \<in> set (captureMovesFrom captureBoard 2 1 WHITE)"
  using captureMovesFrom_emits_iff [of 2 1 1 1 captureBoard WHITE]
  by (simp add: captureBoard_cells inBounds_def belongsTo_def isEnemy_def isKing_def)

text \<open>
  Claim C5. A capture produced by the generators (by \<open>captureMovesFrom\<close> on a square of
  the board, or a capture among \<open>allLegalMoves\<close>) names as captured square the one
  midway between origin and destination, one diagonal step from each; before the move
  that square holds an enemy of the piece on the origin, and after \<open>applyMove\<close> it is
  empty.
\<close>

theorem capture_jumps_enemy:
  assumes "(m \<in> set (allLegalMoves b pl) \<and> isCapture m) \<or>
           (inBounds r c \<and> m \<in> set (captureMovesFrom b r c pl))"
  shows "isCapture m \<and>
         \<bar>cr m - fr m\<bar> = 1 \<and> \<bar>cc m - fc m\<bar> = 1 \<and>
         tr m - cr m = cr m - fr m \<and> tc m - cc m = cc m - fc m \<and>
         inBounds (fr m) (fc m) \<and> inBounds (cr m) (cc m) \<and> inBounds (tr m) (tc m) \<and>
         isEnemy (b (fr m) (fc m)) (b (cr m) (cc m)) \<and>
         applyMove b m (cr m) (cc m) = EMPTY"
proof -
  from assms obtain r' c' where ib: "inBounds r' c'"
    and mem: "m \<in> set (captureMovesFrom b r' c' pl)"
    using legal_capture_mem [of m b pl] by (auto simp: allCaptures_mem_iff)
  from mem obtain dr dc where d: "dr \<in> {1, - 1}" "dc \<in> {1, - 1}"
    and mid: "inBounds (r' + dr) (c' + dc)" and land: "inBounds (r' + 2 * dr) (c' + 2 * dc)"
    and en: "isEnemy (b r' c') (b (r' + dr) (c' + dc))"
    and m: "m = \<lparr>fr = r', fc = c', tr = r' + 2 * dr, tc = c' + 2 * dc, isCapture = True,
                 cr = r' + dr, cc = c' + dc\<rparr>"
    by (auto simp: capture_mem_iff)
  from d have "\<bar>dr\<bar> = 1" "\<bar>dc\<bar> = 1" by auto
  with ib mid land en show ?thesis
    by (simp add: m applyMove_apply)
qed

theorem capture_jumps_enemy_witness:
  "inBounds 2 1 \<and>
   \<lparr>fr = 2, fc = 1, tr = 4, tc = 3, isCapture = True, cr = 3, cc = 2\<rparr>
      \<in> set (captureMovesFrom captureBoard 2 1 WHITE) \<and>
   isEnemy (captureBoard 2 1) (captureBoard 3 2) \<and>
   applyMove captureBoard \<lparr>fr = 2, fc = 1, tr = 4, tc = 3, isCapture = True, cr = 3, cc = 2\<rparr>
     3 2 = EMPTY"
  using capture_jumps_enemy [of "\<lparr>fr = 2, fc = 1, tr = 4, tc = 3, isCapture = True, cr = 3, cc = 2\<rparr>"
      captureBoard WHITE 2 1]
  by (simp add: captureBoard_captures inBounds_def)

lemma generated_squares:
  assumes "mv \<in> set (allLegalMoves b pl) \<or>
           (inBounds r c \<and> mv \<in> set (captureMovesFrom b r c pl))"
  shows "inBounds (fr mv) (fc mv) \<and> inBounds (tr mv) (tc mv) \<and>
         (tr mv, tc mv) \<noteq> (fr mv, fc mv) \<and>
         (isCapture mv \<longrightarrow> inBounds (cr mv) (cc mv) \<and> (cr mv, cc mv) \<noteq> (tr mv, tc mv) \<and>
                           (cr mv, cc mv) \<noteq> (fr mv, fc mv))"
proof -
  from assms obtain r' c' where ib: "inBounds r' c'"
    and mem: "mv \<in> set (captureMovesFrom b r' c' pl) \<or> mv \<in> set (simpleMovesFrom b r' c' pl)"
    using legal_mem_cases [of mv b pl] by blast
  from mem show ?thesis
  proof
    assume "mv \<in> set (captureMovesFrom b r' c' pl)"
    then obtain dr dc where "dr \<in> {1, - 1}" "dc \<in> {1, - 1}"
      "inBounds (r' + dr) (c' + dc)" "inBounds (r' + 2 * dr) (c' + 2 * dc)"
      "mv = \<lparr>fr = r', fc = c', tr = r' + 2 * dr, tc = c' + 2 * dc, isCapture = True,
             cr = r' + dr, cc = c' + dc\<rparr>"
      unfolding capture_mem_iff by blast
    with ib show ?thesis by auto
  next
    assume "mv \<in> set (simpleMovesFrom b r' c' pl)"
    then obtain dr dc where "dr \<in> {1, - 1}" "dc \<in> {1, - 1}"
      "inBounds (r' + dr) (c' + dc)"
      "mv = \<lparr>fr = r', fc = c', tr = r' + dr, tc = c' + dc, isCapture = False,
             cr = - 1, cc = - 1\<rparr>"
      unfolding simple_mem_iff by blast
    with ib show ?thesis by auto
  qed
qed

lemma whiteOnlyBoard_legal:
  "allLegalMoves whiteOnlyBoard WHITE =
     [\<lparr>fr = 2, fc = 1, tr = 3, tc = 2, isCapture = False, cr = - 1, cc = - 1\<rparr>,
      \<lparr>fr = 2, fc = 1, tr = 3, tc = 0, isCapture = False, cr = - 1, cc = - 1\<rparr>]"
  by (simp add: allLegalMoves_def whiteOnlyBoard_allCaptures rows8_def whiteOnlyBoard_cells
      belongsTo_def simpleMovesFrom_def dirsOf_def isKing_def forwardDir_def simpleDir_def
      inBounds_def Let_def)

text \<open>
  Claim C6. \<open>applyMove\<close> is called only on a move taken from \<open>allLegalMoves\<close> or, inside a
  chain, from \<open>captureMovesFrom\<close> at the current square. For every such move, all of whose
  squares lie on the board, the destination receives the piece the origin held before
  the call, the origin becomes empty, the captured square of a capture becomes empty, and
  every other cell keeps its value.
\<close>

theorem applyMove_frame:
  assumes "mv \<in> set (allLegalMoves b pl) \<or>
           (inBounds r c \<and> mv \<in> set (captureMovesFrom b r c pl))"
  shows "applyMove b mv (tr mv) (tc mv) = b (fr mv) (fc mv) \<and>
         applyMove b mv (fr mv) (fc mv) = EMPTY \<and>
         (isCapture mv \<longrightarrow> applyMove b mv (cr mv) (cc mv) = EMPTY) \<and>
         (\<forall>r' c'. (r', c') \<noteq> (tr mv, tc mv) \<and> (r', c') \<noteq> (fr mv, fc mv) \<and>
                  (isCapture mv \<longrightarrow> (r', c') \<noteq> (cr mv, cc mv)) \<longrightarrow>
                  applyMove b mv r' c' = b r' c')"
  using generated_squares [OF assms] by (auto simp: applyMove_apply)

theorem applyMove_frame_witness:
  "\<lparr>fr = 2, fc = 1, tr = 4, tc = 3, isCapture = True, cr = 3, cc = 2\<rparr>
      \<in> set (captureMovesFrom captureBoard 2 1 WHITE) \<and>
   applyMove captureBoard \<lparr>fr = 2, fc = 1, tr = 4, tc = 3, isCapture = True, cr = 3, cc = 2\<rparr> 4 3
     = W_MAN \<and>
   applyMove captureBoard \<lparr>fr = 2, fc = 1, tr = 4, tc = 3, isCapture = True, cr = 3, cc = 2\<rparr> 2 1
     = EMPTY \<and>
   applyMove captureBoard \<lparr>fr = 2, fc = 1, tr = 4, tc = 3, isCapture = True, cr = 3, cc = 2\<rparr> 3 2
     = EMPTY \<and>
   applyMove captureBoard \<lparr>fr = 2, fc = 1, tr = 4, tc = 3, isCapture = True, cr = 3, cc = 2\<rparr> 0 1
     = captureBoard 0 1 \<and>
   \<lparr>fr = 2, fc = 1, tr = 3, tc = 0, isCapture = False, cr = - 1, cc = - 1\<rparr>
      \<in> set (allLegalMoves whiteOnlyBoard WHITE) \<and>
   applyMove whiteOnlyBoard \<lparr>fr = 2, fc = 1, tr = 3, tc = 0, isCapture = False, cr = - 1, cc = - 1\<rparr>
     3 0 = W_MAN \<and>
   applyMove whiteOnlyBoard \<lparr>fr = 2, fc = 1, tr = 3, tc = 0, isCapture = False, cr = - 1, cc = - 1\<rparr>
     2 1 = EMPTY"
  using applyMove_frame
      [of "\<lparr>fr = 2, fc = 1, tr = 4, tc = 3, isCapture = True, cr = 3, cc = 2\<rparr>"
          captureBoard WHITE 2 1]
    applyMove_frame
      [of "\<lparr>fr = 2, fc = 1, tr = 3, tc = 0, isCapture = False, cr = - 1, cc = - 1\<rparr>"
          whiteOnlyBoard WHITE 0 0]
  by (simp add: captureBoard_captures captureBoard_cells whiteOnlyBoard_cells whiteOnlyBoard_legal
      inBounds_def)

text \<open>
  Claim C10. On every square of the board, dark or light, that is empty or holds a piece
  of the other player, both generators return the empty list. (They read the square,
  test \<open>belongsTo\<close> and return at once: there is no failing branch.)
\<close>

theorem generators_empty_when_not_owned:
  assumes "inBounds r c" and "b r c = EMPTY \<or> \<not> belongsTo (b r c) pl"
  shows "captureMovesFrom b r c pl = [] \<and> simpleMovesFrom b r c pl = []"
  using assms by (auto simp: captureMovesFrom_def simpleMovesFrom_def)

theorem generators_empty_when_not_owned_witness:
  "inBounds 3 2 \<and> \<not> belongsTo (captureBoard 3 2) WHITE \<and>
   captureMovesFrom captureBoard 3 2 WHITE = [] \<and> simpleMovesFrom captureBoard 3 2 WHITE = []"
  using generators_empty_when_not_owned [of 3 2 captureBoard WHITE]
  by (simp add: captureBoard_cells inBounds_def belongsTo_def)

section \<open>The initial position and the dark squares\<close>

lemma fold_cols_apply:
  "fold (\<lambda>c b. if P c then setCell b r c p else b) cs b r' c' =
     (if r' = r \<and> c' \<in> set cs \<and> P c' then p else b r' c')"
  by (induction cs arbitrary: b) (auto simp: setCell_apply)

lemma fold_rows_apply:
  "fold (\<lambda>r b. fold (\<lambda>c b. if P r c then setCell b r c p else b) cs b) rs b r' c' =
     (if r' \<in> set rs \<and> c' \<in> set cs \<and> P r' c' then p else b r' c')"
  by (induction rs arbitrary: b) (auto simp: fold_cols_apply)

lemma fold_rows_clear:
  "fold (\<lambda>r b. fold (\<lambda>c b. setCell b r c p) cs b) rs b r' c' =
     (if r' \<in> set rs \<and> c' \<in> set cs then p else b r' c')"
  using fold_rows_apply [of "\<lambda>r c. True" p cs rs b r' c'] by simp

lemma initBoard_cell:
  assumes "inBounds r c"
  shows "initBoard b0 r c =
     (if isDarkSquare r c \<and> r \<le> 2 then W_MAN
      else if isDarkSquare r c \<and> 5 \<le> r then B_MAN
      else EMPTY)"
proof -
  have "initBoard b0 r c =
     (if r \<in> set [5, 6, 7] \<and> c \<in> set rows8 \<and> isDarkSquare r c then B_MAN
      else if r \<in> set [0, 1, 2] \<and> c \<in> set rows8 \<and> isDarkSquare r c then W_MAN
      else if r \<in> set rows8 \<and> c \<in> set rows8 then EMPTY else b0 r c)"
    unfolding initBoard_def Let_def
    by (simp only: fold_rows_apply fold_rows_clear)
  with assms show ?thesis
    by (auto simp: set_rows8 inBounds_def)
qed

lemma isDark_step2:
  assumes "dr \<in> {1, - 1}" "dc \<in> {1, - 1}" "inBounds r c" "inBounds (r + 2 * dr) (c + 2 * dc)"
  shows "isDarkSquare (r + 2 * dr) (c + 2 * dc) = isDarkSquare r c"
proof -
  have "(r + 2 * dr + (c + 2 * dc)) mod 2 = (r + c) mod 2" by presburger
  with assms show ?thesis by (simp add: isDarkSquare_inBounds)
qed

lemma isDark_step1:
  assumes "dr \<in> {1, - 1}" "dc \<in> {1, - 1}" "inBounds r c" "inBounds (r + dr) (c + dc)"
  shows "isDarkSquare (r + dr) (c + dc) = isDarkSquare r c"
proof -
  from assms(1,2) have "(r + dr + (c + dc)) mod 2 = (r + c) mod 2" by auto
  with assms show ?thesis by (simp add: isDarkSquare_inBounds)
qed

lemma generated_move_shape:
  assumes ib: "inBounds r c"
    and mem: "m \<in> set (captureMovesFrom b r c pl) \<or> m \<in> set (simpleMovesFrom b r c pl)"
  shows "fr m = r \<and> fc m = c \<and> belongsTo (b r c) pl \<and> inBounds (tr m) (tc m) \<and>
         b (tr m) (tc m) = EMPTY \<and>
         isDarkSquare (tr m) (tc m) = isDarkSquare r c \<and>
         (isCapture m \<longrightarrow> inBounds (cr m) (cc m))"
  using mem
proof
  assume "m \<in> set (captureMovesFrom b r c pl)"
  then obtain dr dc where d: "dr \<in> {1, - 1}" "dc \<in> {1, - 1}"
    and own: "belongsTo (b r c) pl"
    and mid: "inBounds (r + dr) (c + dc)" and land: "inBounds (r + 2 * dr) (c + 2 * dc)"
    and free: "b (r + 2 * dr) (c + 2 * dc) = EMPTY"
    and m: "m = \<lparr>fr = r, fc = c, tr = r + 2 * dr, tc = c + 2 * dc, isCapture = True,
                 cr = r + dr, cc = c + dc\<rparr>"
    unfolding capture_mem_iff by blast
  from isDark_step2 [OF d ib land] own mid land free show ?thesis
    by (simp add: m)
next
  assume "m \<in> set (simpleMovesFrom b r c pl)"
  then obtain dr dc where d: "dr \<in> {1, - 1}" "dc \<in> {1, - 1}"
    and own: "belongsTo (b r c) pl"
    and land: "inBounds (r + dr) (c + dc)"
    and free: "b (r + dr) (c + dc) = EMPTY"
    and m: "m = \<lparr>fr = r, fc = c, tr = r + dr, tc = c + dc, isCapture = False,
                 cr = - 1, cc = - 1\<rparr>"
    unfolding simple_mem_iff by blast
  from isDark_step1 [OF d ib land] own land free show ?thesis
    by (simp add: m)
qed

lemma applyMove_keeps_dark:
  assumes dark: "\<And>r c. inBounds r c \<Longrightarrow> b r c \<noteq> EMPTY \<Longrightarrow> isDarkSquare r c"
    and ib: "inBounds r0 c0"
    and mem: "m \<in> set (captureMovesFrom b r0 c0 pl) \<or> m \<in> set (simpleMovesFrom b r0 c0 pl)"
    and cell: "inBounds r c" "applyMove b m r c \<noteq> EMPTY"
  shows "isDarkSquare r c"
proof -
  from generated_move_shape [OF ib mem]
  have sh: "fr m = r0" "fc m = c0" "belongsTo (b r0 c0) pl"
    "isDarkSquare (tr m) (tc m) = isDarkSquare r0 c0" by auto
  from sh(3) have "b r0 c0 \<noteq> EMPTY" by auto
  with dark ib have "isDarkSquare r0 c0" by simp
  with sh cell dark show ?thesis
    by (auto simp: applyMove_apply split: if_splits)
qed

lemma blockedBoard_cells:
  "blockedBoard r c = (if r = 0 \<and> c = 1 then W_MAN else if r = 1 \<and> c = 0 then B_MAN else EMPTY)"
  by (simp add: blockedBoard_def setCell_apply emptyBoard_def)

lemma whiteOnlyBoard_counts:
  "countPieces whiteOnlyBoard WHITE = 1" "countPieces whiteOnlyBoard BLACK = 0"
  by (simp_all add: countPieces_def rows8_def whiteOnlyBoard_cells belongsTo_def)

lemma blockedBoard_counts:
  "countPieces blockedBoard WHITE = 1" "countPieces blockedBoard BLACK = 1"
  by (simp_all add: countPieces_def rows8_def blockedBoard_cells belongsTo_def)

lemma blockedBoard_moves: "allLegalMoves blockedBoard BLACK = []"
  by (simp add: allLegalMoves_def allCaptures_def captureMovesFrom_def simpleMovesFrom_def
      rows8_def blockedBoard_cells belongsTo_def dirsOf_def isKing_def forwardDir_def
      captureDir_def simpleDir_def inBounds_def isEnemy_def Let_def)

lemma opening_legal:
  "\<lparr>fr = 2, fc = 1, tr = 3, tc = 0, isCapture = False, cr = - 1, cc = - 1\<rparr>
     \<in> set (allLegalMoves (initBoard emptyBoard) WHITE)"
  by (simp add: allLegalMoves_def allCaptures_def captureMovesFrom_def simpleMovesFrom_def
      rows8_def initBoard_cell isDarkSquare_def signed_modulo_int_def
      belongsTo_def dirsOf_def isKing_def forwardDir_def
      captureDir_def simpleDir_def inBounds_def isEnemy_def Let_def)

text \<open>
  Claim C8. The boards of play are the initial position and whatever results from it by
  applying moves the generators produce (a move of \<open>allLegalMoves\<close>, or a capture of
  \<open>captureMovesFrom\<close> from a square of the board, as in a chain) and by the promotion
  test. On each of them every occupied square of the board is dark.
\<close>

theorem reachable_dark_squares:
  assumes "reachable b" and "inBounds r c" and "b r c \<noteq> EMPTY"
  shows "isDarkSquare r c"
  using assms
proof (induction arbitrary: r c rule: reachable.induct)
  case (reach_init b0)
  then show ?case by (auto simp: initBoard_cell split: if_splits)
next
  case (reach_legal b m pl)
  from legal_mem_cases [OF reach_legal.hyps(2)] obtain r0 c0 where
    "inBounds r0 c0"
    "m \<in> set (captureMovesFrom b r0 c0 pl) \<or> m \<in> set (simpleMovesFrom b r0 c0 pl)"
    by blast
  with reach_legal show ?case
    using applyMove_keeps_dark [of b r0 c0 m pl r c] by blast
next
  case (reach_chain b r0 c0 m pl)
  then show ?case
    using applyMove_keeps_dark [of b r0 c0 m pl r c] by blast
next
  case (reach_promote b r0 c0)
  then show ?case
    by (auto simp: maybePromote_apply split: if_splits)
qed

theorem reachable_dark_squares_witness:
  "reachable (applyMove (initBoard emptyBoard)
      \<lparr>fr = 2, fc = 1, tr = 3, tc = 0, isCapture = False, cr = - 1, cc = - 1\<rparr>) \<and>
   inBounds 3 0 \<and>
   applyMove (initBoard emptyBoard)
      \<lparr>fr = 2, fc = 1, tr = 3, tc = 0, isCapture = False, cr = - 1, cc = - 1\<rparr> 3 0 = W_MAN \<and>
   isDarkSquare 3 0"
proof -
  let ?m = "\<lparr>fr = 2, fc = 1, tr = 3, tc = 0, isCapture = False, cr = - 1, cc = - 1\<rparr>"
  have r: "reachable (applyMove (initBoard emptyBoard) ?m)"
    by (rule reach_legal [OF reach_init opening_legal])
  have ib: "inBounds 3 0" by (simp add: inBounds_def)
  have cell: "applyMove (initBoard emptyBoard) ?m 3 0 = W_MAN"
    by (simp add: applyMove_apply initBoard_cell inBounds_def isDarkSquare_def
        signed_modulo_int_def)
  from reachable_dark_squares [OF r ib] cell r ib show ?thesis by simp
qed

section \<open>The end of the game\<close>

lemma find_SomeD: "find P xs = Some x \<Longrightarrow> x \<in> set xs \<and> P x"
  by (induction xs) (auto split: if_splits)

lemma turnIter_cases:
  assumes "turnIter g toks = (g', toks', evs)"
  shows "(g' = g\<lparr>phase := Finished\<rparr> \<and> toks' = toks \<and> (\<exists>w rs. evs = [GameOver w rs])) \<or>
         (g' = g\<lparr>phase := Finished\<rparr> \<and> toks' = [] \<and> evs = []) \<or>
         (g' = g \<and> (\<exists>x. evs = [Rejected x])) \<or>
         (\<exists>mv \<in> set (allLegalMoves (board g) (turn g)).
            isCapture mv \<and> evs = [Applied mv] \<and>
            g' = g\<lparr>board := applyMove (board g) mv, phase := ChainLoop (tr mv) (tc mv)\<rparr>) \<or>
         (\<exists>mv \<in> set (allLegalMoves (board g) (turn g)).
            \<not> isCapture mv \<and> evs = [Applied mv, PromoteCall (tr mv) (tc mv), TurnSwitch] \<and>
            g' = g\<lparr>board := maybePromote (applyMove (board g) mv) (tr mv) (tc mv),
                   turn := opponent (turn g), phase := TurnLoop\<rparr>)"
  using assms
  by (auto simp: turnIter_def Let_def endTurn_def
      split: if_splits list.splits option.splits prod.splits dest!: find_SomeD)

lemma chainIter_cases:
  assumes "chainIter g r c toks = (g', toks', evs)"
  shows "(captureMovesFrom (board g) r c (turn g) = [] \<and> toks' = toks \<and>
          evs = [PromoteCall r c, TurnSwitch] \<and>
          g' = g\<lparr>board := maybePromote (board g) r c, turn := opponent (turn g),
                 phase := TurnLoop\<rparr>) \<or>
         (captureMovesFrom (board g) r c (turn g) \<noteq> [] \<and> g' = g \<and> (\<exists>x. evs = [Rejected x])) \<or>
         (\<exists>mv \<in> set (captureMovesFrom (board g) r c (turn g)).
            evs = [Applied mv] \<and>
            g' = g\<lparr>board := applyMove (board g) mv, phase := ChainLoop (tr mv) (tc mv)\<rparr>)"
  using assms
  by (auto simp: chainIter_def Let_def endTurn_def
      split: if_splits list.splits option.splits prod.splits dest!: find_SomeD)


lemma fold_count_cols:
  "fold (\<lambda>c cnt. if P c then cnt + 1 else cnt) cs (n::int) = n + int (length (filter P cs))"
  by (induction cs arbitrary: n) auto

lemma fold_count_rows:
  "fold (\<lambda>r cnt. fold (\<lambda>c cnt. if P r c then cnt + 1 else cnt) cs cnt) rs (n::int) =
     n + int (length (filter (\<lambda>(r, c). P r c) (List.product rs cs)))"
  by (induction rs arbitrary: n) (auto simp: fold_count_cols filter_map comp_def)

lemma countPieces_eq:
  "countPieces b pl =
     int (length (filter (\<lambda>(r, c). belongsTo (b r c) pl) (List.product rows8 rows8)))"
  by (simp add: countPieces_def fold_count_rows)

lemma countPieces_zero_iff:
  "countPieces b pl = 0 \<longleftrightarrow> (\<forall>r c. inBounds r c \<longrightarrow> \<not> belongsTo (b r c) pl)"
  by (auto simp: countPieces_eq filter_empty_conv inBounds_rows8)

lemma no_pieces_no_moves:
  assumes "countPieces b pl = 0"
  shows "allLegalMoves b pl = []"
proof (rule ccontr)
  assume "allLegalMoves b pl \<noteq> []"
  then obtain m where "m \<in> set (allLegalMoves b pl)" by (cases "allLegalMoves b pl") auto
  from legal_mem_cases [OF this] obtain r c where "inBounds r c" "belongsTo (b r c) pl"
    by (auto simp: capture_mem_iff simple_mem_iff)
  with assms show False by (simp add: countPieces_zero_iff)
qed

lemma opponent_cases: "opponent WHITE = BLACK" "opponent BLACK = WHITE"
  by (simp_all add: opponent_def)

lemma run_Finished: "phase g = Finished \<Longrightarrow> run n g toks = (g, toks, [])"
  by (induction n) (simp_all add: step_def)

text \<open>
  Claim C7. At the head of the outer loop the program stops with a game-over line
  exactly when the opponent of the player to move has no piece or the player to move has
  no legal move, and the winner it names is then the other side of one of these two: the
  player to move when the opponent has no piece, or the opponent when the player to move
  has no legal move. If the opponent has no piece and the player to move has one, the
  winner is the player to move; if the opponent has a piece and the player to move has no
  legal move, the winner is the opponent. Once the loop is left, a step changes nothing
  and reads nothing, whatever the input: no further move is accepted.
\<close>

theorem game_over_at_turn_start:
  "(phase g = TurnLoop \<longrightarrow>
      ((countPieces (board g) (opponent (turn g)) = 0 \<or> allLegalMoves (board g) (turn g) = [])
        \<longleftrightarrow> (\<exists>w rs. step g toks = (g\<lparr>phase := Finished\<rparr>, toks, [GameOver w rs]))) \<and>
      (\<forall>w rs. step g toks = (g\<lparr>phase := Finished\<rparr>, toks, [GameOver w rs]) \<longrightarrow>
         (w = turn g \<and> countPieces (board g) (opponent (turn g)) = 0) \<or>
         (w = opponent (turn g) \<and> allLegalMoves (board g) (turn g) = [])) \<and>
      (countPieces (board g) (opponent (turn g)) = 0 \<and> countPieces (board g) (turn g) \<noteq> 0 \<longrightarrow>
         step g toks = (g\<lparr>phase := Finished\<rparr>, toks, [GameOver (turn g) NoPieces])) \<and>
      (countPieces (board g) (opponent (turn g)) \<noteq> 0 \<and> allLegalMoves (board g) (turn g) = [] \<longrightarrow>
         (\<exists>rs. step g toks = (g\<lparr>phase := Finished\<rparr>, toks, [GameOver (opponent (turn g)) rs])))) \<and>
   (phase g = Finished \<longrightarrow> step g toks = (g, toks, []) \<and> run n g toks = (g, toks, []))"
proof -
  have fin: "phase g = Finished \<longrightarrow> step g toks = (g, toks, []) \<and> run n g toks = (g, toks, [])"
    by (simp add: run_Finished) (simp add: step_def)
  have tl: ?thesis if ph: "phase g = TurnLoop"
  proof (cases "turn g")
    case WHITE
    show ?thesis
      using ph WHITE no_pieces_no_moves [of "board g" WHITE]
      by (auto simp: step_def turnIter_def Let_def opponent_cases endTurn_def
          split: list.splits option.splits)
  next
    case BLACK
    show ?thesis
      using ph BLACK no_pieces_no_moves [of "board g" BLACK]
      by (auto simp: step_def turnIter_def Let_def opponent_cases endTurn_def
          split: list.splits option.splits)
  qed
  show ?thesis
  proof (cases "phase g = TurnLoop")
    case True
    then show ?thesis by (rule tl)
  next
    case False
    with fin show ?thesis by simp
  qed
qed

theorem game_over_at_turn_start_witness:
  "step \<lparr>board = whiteOnlyBoard, turn = WHITE, phase = TurnLoop\<rparr> [''b3'', ''a4''] =
     (\<lparr>board = whiteOnlyBoard, turn = WHITE, phase = Finished\<rparr>, [''b3'', ''a4''],
      [GameOver WHITE NoPieces]) \<and>
   (\<exists>rs. step \<lparr>board = blockedBoard, turn = BLACK, phase = TurnLoop\<rparr> [''a2'', ''b1''] =
     (\<lparr>board = blockedBoard, turn = BLACK, phase = Finished\<rparr>, [''a2'', ''b1''],
      [GameOver WHITE rs])) \<and>
   run 3 \<lparr>board = whiteOnlyBoard, turn = WHITE, phase = Finished\<rparr> [''b3'', ''c4''] =
     (\<lparr>board = whiteOnlyBoard, turn = WHITE, phase = Finished\<rparr>, [''b3'', ''c4''], [])"
  using game_over_at_turn_start
      [of "\<lparr>board = whiteOnlyBoard, turn = WHITE, phase = TurnLoop\<rparr>" "[''b3'', ''a4'']" 0]
    game_over_at_turn_start
      [of "\<lparr>board = blockedBoard, turn = BLACK, phase = TurnLoop\<rparr>" "[''a2'', ''b1'']" 0]
    game_over_at_turn_start
      [of "\<lparr>board = whiteOnlyBoard, turn = WHITE, phase = Finished\<rparr>" "[''b3'', ''c4'']" 3]
  by (simp add: whiteOnlyBoard_counts blockedBoard_counts blockedBoard_moves opponent_def)

text \<open>
  Where both conditions hold at once the two readings of "the other side" differ, and the
  order of the tests decides: WHITE's count is tested first, so on a board without any
  piece BLACK is named, also when WHITE is to move.
\<close>

lemma emptyBoard_counts: "countPieces emptyBoard WHITE = 0" "countPieces emptyBoard BLACK = 0"
  by (simp_all add: countPieces_def rows8_def emptyBoard_def)

lemma empty_board_white_to_move:
  "step \<lparr>board = emptyBoard, turn = WHITE, phase = TurnLoop\<rparr> toks =
     (\<lparr>board = emptyBoard, turn = WHITE, phase = Finished\<rparr>, toks, [GameOver BLACK NoPieces])"
  by (simp add: step_def turnIter_def emptyBoard_counts)

section \<open>One iteration of either loop\<close>

lemma opponent_neq: "opponent pl \<noteq> pl"
  by (simp add: opponent_def)

lemma step_cases:
  assumes "step g toks = (g', toks', evs)"
  shows "(phase g = Finished \<and> g' = g \<and> toks' = toks \<and> evs = []) \<or>
         (phase g = TurnLoop \<and> g' = g\<lparr>phase := Finished\<rparr> \<and>
            (evs = [] \<or> (\<exists>w rs. evs = [GameOver w rs]))) \<or>
         (phase g \<noteq> Finished \<and> g' = g \<and> (\<exists>x. evs = [Rejected x])) \<or>
         (\<exists>mv. isCapture mv \<and> evs = [Applied mv] \<and>
            (phase g = TurnLoop \<and> mv \<in> set (allLegalMoves (board g) (turn g)) \<or>
             (\<exists>r c. phase g = ChainLoop r c \<and>
                    mv \<in> set (captureMovesFrom (board g) r c (turn g)))) \<and>
            g' = g\<lparr>board := applyMove (board g) mv, phase := ChainLoop (tr mv) (tc mv)\<rparr>) \<or>
         (\<exists>mv \<in> set (allLegalMoves (board g) (turn g)).
            phase g = TurnLoop \<and> \<not> isCapture mv \<and>
            evs = [Applied mv, PromoteCall (tr mv) (tc mv), TurnSwitch] \<and>
            g' = g\<lparr>board := maybePromote (applyMove (board g) mv) (tr mv) (tc mv),
                   turn := opponent (turn g), phase := TurnLoop\<rparr>) \<or>
         (\<exists>r c. phase g = ChainLoop r c \<and> captureMovesFrom (board g) r c (turn g) = [] \<and>
            evs = [PromoteCall r c, TurnSwitch] \<and>
            g' = g\<lparr>board := maybePromote (board g) r c, turn := opponent (turn g),
                   phase := TurnLoop\<rparr>)"
proof (cases "phase g")
  case TurnLoop
  with assms have "turnIter g toks = (g', toks', evs)" by (simp add: step_def)
  from turnIter_cases [OF this] TurnLoop show ?thesis by auto
next
  case (ChainLoop r c)
  with assms have "chainIter g r c toks = (g', toks', evs)" by (simp add: step_def)
  from chainIter_cases [OF this] ChainLoop show ?thesis
    by (auto simp: allCaptures_isCapture capture_mem_iff)
next
  case Finished
  with assms show ?thesis by (auto simp: step_def)
qed

lemma step_trace:
  assumes "step g toks = (g1, toks1, evs1)"
    and "promotesAtRest (restingSquare (phase g1)) es"
  shows "promotesAtRest (restingSquare (phase g)) (evs1 @ es)"
  using step_cases [OF assms(1)] assms(2)
  by (auto simp: restingSquare_def)

lemma run_trace:
  "run n g toks = (g', toks', evs) \<Longrightarrow> promotesAtRest (restingSquare (phase g)) evs"
proof (induction n arbitrary: g toks g' toks' evs)
  case 0
  then show ?case by simp
next
  case (Suc n)
  obtain g1 toks1 evs1 where st: "step g toks = (g1, toks1, evs1)"
    by (cases "step g toks") auto
  obtain g2 toks2 evs2 where rn: "run n g1 toks1 = (g2, toks2, evs2)"
    by (cases "run n g1 toks1") auto
  from Suc.prems st rn have evs: "evs = evs1 @ evs2" by simp
  from Suc.IH [OF rn] have "promotesAtRest (restingSquare (phase g1)) evs2" .
  from step_trace [OF st this] evs show ?case by simp
qed

lemma maybePromote_eq:
  "maybePromote b r c =
     (if b r c = W_MAN \<and> r = 7 then setCell b r c W_KING
      else if b r c = B_MAN \<and> r = 0 then setCell b r c B_KING
      else b)"
  by (auto simp: maybePromote_def Let_def)

lemma find_Some_ex: "\<exists>x \<in> set xs. P x \<Longrightarrow> \<exists>y \<in> set xs. P y \<and> find P xs = Some y"
  by (induction xs) auto

lemma chainBoard_cells:
  "chainBoard r c =
     (if r = 6 \<and> c = 5 then B_MAN else if r = 4 \<and> c = 3 then B_MAN
      else if r = 3 \<and> c = 2 then W_MAN else EMPTY)"
  by (simp add: chainBoard_def setCell_apply emptyBoard_def)

lemma midChainBoard_eq:
  "applyMove chainBoard \<lparr>fr = 3, fc = 2, tr = 5, tc = 4, isCapture = True, cr = 4, cc = 3\<rparr> =
     midChainBoard"
  by (rule ext, rule ext)
     (simp add: applyMove_apply chainBoard_def midChainBoard_def setCell_apply emptyBoard_def)

lemma midChainBoard_cells:
  "midChainBoard r c =
     (if r = 6 \<and> c = 5 then B_MAN else if r = 5 \<and> c = 4 then W_MAN else EMPTY)"
  by (simp add: midChainBoard_def setCell_apply emptyBoard_def)

lemma parse_examples:
  "parseSquare ''b3'' = Some (2, 1)" "parseSquare ''a4'' = Some (3, 0)"
  "parseSquare ''c4'' = Some (3, 2)" "parseSquare ''e6'' = Some (5, 4)"
  "parseSquare ''a1'' = Some (0, 0)" "parseSquare ''g8'' = Some (7, 6)"
  "parseSquare ''z9'' = None"
  by (simp_all add: parseSquare_def isalpha_c_def isdigit_c_def tolower_c_def inBounds_def)

lemma chainBoard_counts:
  "countPieces chainBoard WHITE = 1" "countPieces chainBoard BLACK = 2"
  by (simp_all add: countPieces_def rows8_def chainBoard_cells belongsTo_def)

lemma captureBoard_counts:
  "countPieces captureBoard WHITE = 1" "countPieces captureBoard BLACK = 1"
  by (simp_all add: countPieces_def rows8_def captureBoard_cells belongsTo_def)

lemma captureBoard_legal:
  "allLegalMoves captureBoard WHITE =
     [\<lparr>fr = 2, fc = 1, tr = 4, tc = 3, isCapture = True, cr = 3, cc = 2\<rparr>]"
  by (simp add: allLegalMoves_def allCaptures_def captureMovesFrom_def simpleMovesFrom_def
      rows8_def captureBoard_cells belongsTo_def dirsOf_def isKing_def forwardDir_def
      captureDir_def simpleDir_def inBounds_def isEnemy_def Let_def)

lemma chainBoard_legal:
  "allLegalMoves chainBoard WHITE =
     [\<lparr>fr = 3, fc = 2, tr = 5, tc = 4, isCapture = True, cr = 4, cc = 3\<rparr>]"
  by (simp add: allLegalMoves_def allCaptures_def captureMovesFrom_def simpleMovesFrom_def
      rows8_def chainBoard_cells belongsTo_def dirsOf_def isKing_def forwardDir_def
      captureDir_def simpleDir_def inBounds_def isEnemy_def Let_def)

lemma midChainBoard_captures:
  "captureMovesFrom midChainBoard 5 4 WHITE =
     [\<lparr>fr = 5, fc = 4, tr = 7, tc = 6, isCapture = True, cr = 6, cc = 5\<rparr>]"
  by (simp add: captureMovesFrom_def midChainBoard_cells belongsTo_def dirsOf_def isKing_def
      forwardDir_def captureDir_def inBounds_def isEnemy_def Let_def)

lemma backRank_captures:
  "captureMovesFrom
     (applyMove midChainBoard \<lparr>fr = 5, fc = 4, tr = 7, tc = 6, isCapture = True, cr = 6, cc = 5\<rparr>)
     7 6 WHITE = []"
  by (simp add: captureMovesFrom_def applyMove_apply midChainBoard_cells belongsTo_def dirsOf_def
      isKing_def forwardDir_def captureDir_def inBounds_def isEnemy_def Let_def)

lemma isDark_examples: "isDarkSquare 3 0" "isDarkSquare 5 4" "\<not> isDarkSquare 0 0"
  by (simp_all add: isDarkSquare_def signed_modulo_int_def)

lemma chainBoard_first_step:
  "step \<lparr>board = chainBoard, turn = WHITE, phase = TurnLoop\<rparr> [''c4'', ''e6'', ''a1'', ''g8''] =
     (\<lparr>board = applyMove chainBoard
                 \<lparr>fr = 3, fc = 2, tr = 5, tc = 4, isCapture = True, cr = 4, cc = 3\<rparr>,
       turn = WHITE, phase = ChainLoop 5 4\<rparr>,
      [''a1'', ''g8''],
      [Applied \<lparr>fr = 3, fc = 2, tr = 5, tc = 4, isCapture = True, cr = 4, cc = 3\<rparr>])"
  by (simp add: step_def turnIter_def chainBoard_counts chainBoard_legal parse_examples
      isDark_examples chainBoard_cells belongsTo_def sameMove_def)

lemma captureBoard_rejects:
  "step \<lparr>board = captureBoard, turn = WHITE, phase = TurnLoop\<rparr> [''b3'', ''a4''] =
     (\<lparr>board = captureBoard, turn = WHITE, phase = TurnLoop\<rparr>, [], [Rejected NotInLegalSet])"
  by (simp add: step_def turnIter_def captureBoard_counts captureBoard_legal parse_examples
      isDark_examples captureBoard_cells belongsTo_def sameMove_def)

text \<open>
  The moves the loops hand to \<open>applyMove\<close> are generated moves.
\<close>

lemma step_applies_generated:
  assumes "step g toks = (g', toks', evs)" and "Applied mv \<in> set evs"
    and "\<forall>r c. phase g = ChainLoop r c \<longrightarrow> inBounds r c"
  shows "board g' = (if isCapture mv then applyMove (board g) mv
                     else maybePromote (applyMove (board g) mv) (tr mv) (tc mv)) \<and>
         (mv \<in> set (allLegalMoves (board g) (turn g)) \<or>
          (\<exists>r c. inBounds r c \<and> mv \<in> set (captureMovesFrom (board g) r c (turn g))))"
  using step_cases [OF assms(1)] assms(2,3) by auto

text \<open>
  Every board of a run of the program from the initial position is one of the boards of
  \<open>reachable\<close>, and the chain position stays on the board.
\<close>

lemma legal_dest_inBounds:
  "m \<in> set (allLegalMoves b pl) \<Longrightarrow> inBounds (tr m) (tc m)"
  using legal_mem_cases [of m b pl] generated_move_shape [of _ _ m b pl] by blast

lemma step_reachable:
  assumes "step g toks = (g', toks', evs)"
    and "reachable (board g)"
    and "\<forall>r c. phase g = ChainLoop r c \<longrightarrow> inBounds r c"
  shows "reachable (board g') \<and> (\<forall>r c. phase g' = ChainLoop r c \<longrightarrow> inBounds r c)"
proof -
  have prom: "reachable (maybePromote (applyMove (board g) mv) (tr mv) (tc mv))"
    if "mv \<in> set (allLegalMoves (board g) (turn g))" for mv
    using that assms(2) by (intro reach_promote reach_legal legal_dest_inBounds)
  have cap: "reachable (applyMove (board g) mv) \<and> inBounds (tr mv) (tc mv)"
    if "phase g = ChainLoop r c" "mv \<in> set (captureMovesFrom (board g) r c (turn g))" for mv r c
    using that assms(2,3) reach_chain [of "board g" r c mv "turn g"]
      generated_move_shape [of r c mv "board g" "turn g"] by auto
  from step_cases [OF assms(1)] assms(2,3) prom cap show ?thesis
    by (auto intro: reach_legal reach_promote dest: legal_dest_inBounds)
qed

lemma run_reachable:
  assumes "run n g toks = (g', toks', evs)"
    and "reachable (board g)"
    and "\<forall>r c. phase g = ChainLoop r c \<longrightarrow> inBounds r c"
  shows "reachable (board g') \<and> (\<forall>r c. phase g' = ChainLoop r c \<longrightarrow> inBounds r c)"
  using assms
proof (induction n arbitrary: g toks g' toks' evs)
  case 0
  then show ?case by simp
next
  case (Suc n)
  obtain g1 toks1 evs1 where st: "step g toks = (g1, toks1, evs1)"
    by (cases "step g toks") auto
  obtain g2 toks2 evs2 where rn: "run n g1 toks1 = (g2, toks2, evs2)"
    by (cases "run n g1 toks1") auto
  from Suc.prems(1) st rn have "g' = g2" by simp
  moreover from step_reachable [OF st Suc.prems(2,3)]
  have "reachable (board g1)" "\<forall>r c. phase g1 = ChainLoop r c \<longrightarrow> inBounds r c" by auto
  from Suc.IH [OF rn this] have "reachable (board g2) \<and>
    (\<forall>r c. phase g2 = ChainLoop r c \<longrightarrow> inBounds r c)" .
  ultimately show ?case by simp
qed

lemma game_boards_reachable:
  "run n (newGame b0) toks = (g', toks', evs) \<Longrightarrow> reachable (board g')"
  using run_reachable [of n "newGame b0" toks g' toks' evs]
  by (simp add: newGame_def reach_init)

text \<open>
  At the end of the input inside a chain the token read is empty, which is rejected: the
  inner loop repeats without end.
\<close>

lemma chain_end_of_input:
  assumes "phase g = ChainLoop r c" and "captureMovesFrom (board g) r c (turn g) \<noteq> []"
  shows "run n g [] = (g, [], replicate n (Rejected BadSquare))"
proof -
  have p: "parseSquare [] = None" by (simp add: parseSquare_def)
  from assms have st: "step g [] = (g, [], [Rejected BadSquare])"
    by (simp add: step_def chainIter_def Let_def p)
  show ?thesis by (induction n) (simp_all add: st)
qed

text \<open>
  Claim C2. When a capture is accepted at the head of the outer loop, the state enters
  the inner loop at the landing square with the same player to move. In the inner loop,
  while the piece on the current square has a capture, a token that does not parse is
  rejected, a square that is not the landing square of one of these captures is rejected
  with the state unchanged, and a landing square is accepted: the move applied is a
  capture from the current square, and the loop continues at its landing square with the
  same player. The player to move changes in an iteration of the inner loop exactly when
  the piece has no capture left.
\<close>

theorem chain_continuation_forced:
  "(phase g = TurnLoop \<and> step g toks = (g', toks', evs) \<and> Applied mv \<in> set evs \<and> isCapture mv
      \<longrightarrow> board g' = applyMove (board g) mv \<and> turn g' = turn g \<and>
          phase g' = ChainLoop (tr mv) (tc mv)) \<and>
   (phase g = ChainLoop r c \<and> captureMovesFrom (board g) r c (turn g) \<noteq> [] \<longrightarrow>
      (parseSquare t = None \<longrightarrow> step g (t # rest) = (g, rest, [Rejected BadSquare])) \<and>
      (\<forall>nr nc. parseSquare t = Some (nr, nc) \<longrightarrow>
         (if \<exists>m \<in> set (captureMovesFrom (board g) r c (turn g)). tr m = nr \<and> tc m = nc
          then \<exists>mv \<in> set (captureMovesFrom (board g) r c (turn g)).
                 fr mv = r \<and> fc mv = c \<and> tr mv = nr \<and> tc mv = nc \<and> isCapture mv \<and>
                 step g (t # rest) =
                   (g\<lparr>board := applyMove (board g) mv, phase := ChainLoop nr nc\<rparr>, rest,
                    [Applied mv])
          else step g (t # rest) = (g, rest, [Rejected NotAForcedLanding])))) \<and>
   (phase g = ChainLoop r c \<longrightarrow>
      (turn (fst (step g toks)) \<noteq> turn g \<longleftrightarrow> captureMovesFrom (board g) r c (turn g) = []))"
proof -
  have a: "phase g = TurnLoop \<and> step g toks = (g', toks', evs) \<and> Applied mv \<in> set evs \<and>
      isCapture mv \<longrightarrow> board g' = applyMove (board g) mv \<and> turn g' = turn g \<and>
          phase g' = ChainLoop (tr mv) (tc mv)"
  proof (intro impI, elim conjE)
    assume st: "step g toks = (g', toks', evs)" and p: "Applied mv \<in> set evs" "isCapture mv"
    from step_cases [OF st] p show "board g' = applyMove (board g) mv \<and> turn g' = turn g \<and>
          phase g' = ChainLoop (tr mv) (tc mv)"
      by auto
  qed
  have b: "(parseSquare t = None \<longrightarrow> step g (t # rest) = (g, rest, [Rejected BadSquare])) \<and>
      (\<forall>nr nc. parseSquare t = Some (nr, nc) \<longrightarrow>
         (if \<exists>m \<in> set (captureMovesFrom (board g) r c (turn g)). tr m = nr \<and> tc m = nc
          then \<exists>mv \<in> set (captureMovesFrom (board g) r c (turn g)).
                 fr mv = r \<and> fc mv = c \<and> tr mv = nr \<and> tc mv = nc \<and> isCapture mv \<and>
                 step g (t # rest) =
                   (g\<lparr>board := applyMove (board g) mv, phase := ChainLoop nr nc\<rparr>, rest,
                    [Applied mv])
          else step g (t # rest) = (g, rest, [Rejected NotAForcedLanding])))"
    if ph: "phase g = ChainLoop r c" and caps: "captureMovesFrom (board g) r c (turn g) \<noteq> []"
  proof (intro conjI impI allI)
    assume "parseSquare t = None"
    with ph caps show "step g (t # rest) = (g, rest, [Rejected BadSquare])"
      by (simp add: step_def chainIter_def Let_def)
  next
    fix nr nc
    assume ps: "parseSquare t = Some (nr, nc)"
    show "if \<exists>m \<in> set (captureMovesFrom (board g) r c (turn g)). tr m = nr \<and> tc m = nc
          then \<exists>mv \<in> set (captureMovesFrom (board g) r c (turn g)).
                 fr mv = r \<and> fc mv = c \<and> tr mv = nr \<and> tc mv = nc \<and> isCapture mv \<and>
                 step g (t # rest) =
                   (g\<lparr>board := applyMove (board g) mv, phase := ChainLoop nr nc\<rparr>, rest,
                    [Applied mv])
          else step g (t # rest) = (g, rest, [Rejected NotAForcedLanding])"
    proof (cases "\<exists>m \<in> set (captureMovesFrom (board g) r c (turn g)). tr m = nr \<and> tc m = nc")
      case True
      from find_Some_ex [OF True] obtain mv where
        mv: "mv \<in> set (captureMovesFrom (board g) r c (turn g))" "tr mv = nr" "tc mv = nc"
        and fnd: "find (\<lambda>m. tr m = nr \<and> tc m = nc) (captureMovesFrom (board g) r c (turn g))
                    = Some mv"
        by blast
      from mv(1) have "fr mv = r" "fc mv = c" "isCapture mv"
        by (auto simp: capture_mem_iff)
      moreover from ph caps ps fnd mv have "step g (t # rest) =
          (g\<lparr>board := applyMove (board g) mv, phase := ChainLoop nr nc\<rparr>, rest, [Applied mv])"
        by (simp add: step_def chainIter_def Let_def)
      ultimately show ?thesis using True mv by auto
    next
      case False
      then have "find (\<lambda>m. tr m = nr \<and> tc m = nc) (captureMovesFrom (board g) r c (turn g))
                   = None"
        by (simp add: find_None_iff)
      with ph caps ps False show ?thesis
        by (simp add: step_def chainIter_def Let_def)
    qed
  qed
  have c: "turn (fst (step g toks)) \<noteq> turn g \<longleftrightarrow> captureMovesFrom (board g) r c (turn g) = []"
    if ph: "phase g = ChainLoop r c"
  proof -
    obtain g1 toks1 evs1 where st: "step g toks = (g1, toks1, evs1)"
      by (cases "step g toks") auto
    with ph have "chainIter g r c toks = (g1, toks1, evs1)" by (simp add: step_def)
    from chainIter_cases [OF this] show ?thesis
      by (auto simp: st opponent_neq)
  qed
  from a b c show ?thesis by blast
qed

theorem chain_continuation_forced_witness:
  "phase (fst (step \<lparr>board = chainBoard, turn = WHITE, phase = TurnLoop\<rparr>
                    [''c4'', ''e6'', ''a1'', ''g8''])) = ChainLoop 5 4 \<and>
   turn (fst (step \<lparr>board = chainBoard, turn = WHITE, phase = TurnLoop\<rparr>
                    [''c4'', ''e6'', ''a1'', ''g8''])) = WHITE \<and>
   captureMovesFrom midChainBoard 5 4 WHITE \<noteq> [] \<and>
   step \<lparr>board = midChainBoard, turn = WHITE, phase = ChainLoop 5 4\<rparr> [''a1'', ''g8''] =
     (\<lparr>board = midChainBoard, turn = WHITE, phase = ChainLoop 5 4\<rparr>, [''g8''],
      [Rejected NotAForcedLanding]) \<and>
   step \<lparr>board = midChainBoard, turn = WHITE, phase = ChainLoop 5 4\<rparr> [''g8''] =
     (\<lparr>board = applyMove midChainBoard
                 \<lparr>fr = 5, fc = 4, tr = 7, tc = 6, isCapture = True, cr = 6, cc = 5\<rparr>,
       turn = WHITE, phase = ChainLoop 7 6\<rparr>, [],
      [Applied \<lparr>fr = 5, fc = 4, tr = 7, tc = 6, isCapture = True, cr = 6, cc = 5\<rparr>])"
  using chain_continuation_forced
      [where g = "\<lparr>board = chainBoard, turn = WHITE, phase = TurnLoop\<rparr>"
         and toks = "[''c4'', ''e6'', ''a1'', ''g8'']"
         and g' = "\<lparr>board = applyMove chainBoard
                 \<lparr>fr = 3, fc = 2, tr = 5, tc = 4, isCapture = True, cr = 4, cc = 3\<rparr>,
                 turn = WHITE, phase = ChainLoop 5 4\<rparr>"
         and toks' = "[''a1'', ''g8'']"
         and evs = "[Applied \<lparr>fr = 3, fc = 2, tr = 5, tc = 4, isCapture = True, cr = 4, cc = 3\<rparr>]"
         and mv = "\<lparr>fr = 3, fc = 2, tr = 5, tc = 4, isCapture = True, cr = 4, cc = 3\<rparr>"
         and r = 5 and c = 4 and t = "''a1''" and rest = "[''g8'']"]
    chain_continuation_forced
      [where g = "\<lparr>board = midChainBoard, turn = WHITE, phase = ChainLoop 5 4\<rparr>"
         and r = 5 and c = 4 and t = "''a1''" and rest = "[''g8'']"]
    chain_continuation_forced
      [where g = "\<lparr>board = midChainBoard, turn = WHITE, phase = ChainLoop 5 4\<rparr>"
         and r = 5 and c = 4 and t = "''g8''" and rest = "[]"]
  by (simp add: chainBoard_first_step midChainBoard_captures parse_examples)

lemma legal_simple_form:
  assumes "m \<in> set (allLegalMoves b pl)" and "\<not> isCapture m"
  shows "allCaptures b pl = [] \<and>
         m = \<lparr>fr = fr m, fc = fc m, tr = tr m, tc = tc m, isCapture = False,
              cr = - 1, cc = - 1\<rparr>"
proof -
  have nc: "allCaptures b pl = []"
  proof (rule ccontr)
    assume "allCaptures b pl \<noteq> []"
    with assms(1) have "m \<in> set (allCaptures b pl)" by (simp add: allLegalMoves_def)
    with assms(2) show False by (simp add: allCaptures_isCapture)
  qed
  from legal_mem_cases [OF assms(1)] assms(2) obtain r c where
    "m \<in> set (simpleMovesFrom b r c pl)"
    by (auto simp: capture_mem_iff)
  then have "m = \<lparr>fr = fr m, fc = fc m, tr = tr m, tc = tc m, isCapture = False,
                  cr = - 1, cc = - 1\<rparr>"
    by (auto simp: simple_mem_iff)
  with nc show ?thesis by simp
qed

lemma legal_all_simple:
  assumes "allCaptures b pl = []" and "m \<in> set (allLegalMoves b pl)"
  shows "\<not> isCapture m"
  using assms legal_capture_mem [of m b pl] by auto

lemma find_simple_move:
  assumes mem: "mv \<in> set (allLegalMoves b pl)" and simple: "\<not> isCapture mv"
  shows "find (\<lambda>m. sameMove m (fr mv) (fc mv) (tr mv) (tc mv)) (allLegalMoves b pl) = Some mv"
proof -
  have "\<exists>x \<in> set (allLegalMoves b pl). sameMove x (fr mv) (fc mv) (tr mv) (tc mv)"
    using mem by (auto simp: sameMove_def)
  from find_Some_ex [OF this] obtain y where y: "y \<in> set (allLegalMoves b pl)"
    "sameMove y (fr mv) (fc mv) (tr mv) (tc mv)"
    and fnd: "find (\<lambda>m. sameMove m (fr mv) (fc mv) (tr mv) (tc mv)) (allLegalMoves b pl) = Some y"
    by blast
  from legal_simple_form [OF mem simple] have nc: "allCaptures b pl = []"
    and mvf: "mv = \<lparr>fr = fr mv, fc = fc mv, tr = tr mv, tc = tc mv, isCapture = False,
                    cr = - 1, cc = - 1\<rparr>" by auto
  from legal_all_simple [OF nc y(1)] have "\<not> isCapture y" .
  from legal_simple_form [OF y(1) this]
  have "y = \<lparr>fr = fr y, fc = fc y, tr = tr y, tc = tc y, isCapture = False,
             cr = - 1, cc = - 1\<rparr>" by simp
  with y(2) have "y = \<lparr>fr = fr mv, fc = fc mv, tr = tr mv, tc = tc mv, isCapture = False,
             cr = - 1, cc = - 1\<rparr>" by (simp add: sameMove_def)
  with mvf have "y = mv" by simp
  with fnd show ?thesis by simp
qed

lemma simple_move_step:
  assumes ph: "phase g = TurnLoop"
    and nz: "countPieces (board g) WHITE \<noteq> 0" "countPieces (board g) BLACK \<noteq> 0"
    and p1: "parseSquare t1 = Some (fr mv, fc mv)" and p2: "parseSquare t2 = Some (tr mv, tc mv)"
    and dark: "isDarkSquare (tr mv) (tc mv)"
    and mem: "mv \<in> set (allLegalMoves (board g) (turn g))" and simple: "\<not> isCapture mv"
  shows "step g (t1 # t2 # rest) =
           (g\<lparr>board := maybePromote (applyMove (board g) mv) (tr mv) (tc mv),
              turn := opponent (turn g), phase := TurnLoop\<rparr>, rest,
            [Applied mv, PromoteCall (tr mv) (tc mv), TurnSwitch])"
proof -
  from legal_mem_cases [OF mem] obtain r c where ib: "inBounds r c"
    and gen: "mv \<in> set (captureMovesFrom (board g) r c (turn g)) \<or>
              mv \<in> set (simpleMovesFrom (board g) r c (turn g))" by blast
  from generated_move_shape [OF ib gen]
  have own: "belongsTo (board g (fr mv) (fc mv)) (turn g)"
    and free: "board g (tr mv) (tc mv) = EMPTY" by auto
  from mem have ne: "allLegalMoves (board g) (turn g) \<noteq> []" by auto
  from ph nz ne p1 p2 dark own free simple find_simple_move [OF mem simple]
  show ?thesis
    by (simp add: step_def turnIter_def Let_def endTurn_def)
qed

lemma chain_end_step:
  assumes "phase g = ChainLoop r c" and "captureMovesFrom (board g) r c (turn g) = []"
  shows "step g toks =
           (g\<lparr>board := maybePromote (board g) r c, turn := opponent (turn g),
              phase := TurnLoop\<rparr>, toks, [PromoteCall r c, TurnSwitch])"
  using assms by (simp add: step_def chainIter_def Let_def endTurn_def)

lemma step_turn_changes:
  assumes st: "step g toks = (g', toks', evs)" and ch: "turn g' \<noteq> turn g"
  shows "\<exists>pr pc.
      (phase g = ChainLoop pr pc \<and> captureMovesFrom (board g) pr pc (turn g) = [] \<and>
       evs = [PromoteCall pr pc, TurnSwitch] \<and> board g' = maybePromote (board g) pr pc) \<or>
      (\<exists>mv \<in> set (allLegalMoves (board g) (turn g)).
         phase g = TurnLoop \<and> \<not> isCapture mv \<and> tr mv = pr \<and> tc mv = pc \<and>
         evs = [Applied mv, PromoteCall pr pc, TurnSwitch] \<and>
         board g' = maybePromote (applyMove (board g) mv) pr pc)"
  using step_cases [OF st] ch by auto

lemma step_turn_stays:
  assumes st: "step g toks = (g', toks', evs)" and same: "turn g' = turn g"
  shows "(\<forall>pr pc. PromoteCall pr pc \<notin> set evs) \<and>
         (board g' = board g \<or>
          (\<exists>mv. isCapture mv \<and> evs = [Applied mv] \<and> board g' = applyMove (board g) mv))"
  using step_cases [OF st] same by (auto simp: opponent_neq)

lemma promoBoard_cells:
  "promoBoard r c = (if r = 2 \<and> c = 5 then B_MAN else if r = 6 \<and> c = 1 then W_MAN else EMPTY)"
  by (simp add: promoBoard_def setCell_apply emptyBoard_def)

lemma promoBoard_counts:
  "countPieces promoBoard WHITE = 1" "countPieces promoBoard BLACK = 1"
  by (simp_all add: countPieces_def rows8_def promoBoard_cells belongsTo_def)

lemma promoBoard_legal:
  "allLegalMoves promoBoard WHITE =
     [\<lparr>fr = 6, fc = 1, tr = 7, tc = 2, isCapture = False, cr = - 1, cc = - 1\<rparr>,
      \<lparr>fr = 6, fc = 1, tr = 7, tc = 0, isCapture = False, cr = - 1, cc = - 1\<rparr>]"
  by (simp add: allLegalMoves_def allCaptures_def captureMovesFrom_def simpleMovesFrom_def
      rows8_def promoBoard_cells belongsTo_def dirsOf_def isKing_def forwardDir_def
      captureDir_def simpleDir_def inBounds_def isEnemy_def Let_def)

lemma parse_promo: "parseSquare ''b7'' = Some (6, 1)" "parseSquare ''c8'' = Some (7, 2)"
  by (simp_all add: parseSquare_def isalpha_c_def isdigit_c_def tolower_c_def inBounds_def)

lemma isDark_promo: "isDarkSquare 7 2"
  by (simp add: isDarkSquare_def signed_modulo_int_def)

text \<open>
  Claim C3. \<open>maybePromote\<close> turns a white man on row 7 into a white king and a black man
  on row 0 into a black king, and changes nothing otherwise; the square it is called for
  then holds the king. A turn ends in two ways, and each calls it once, for the square
  where the moved piece rests, right before the players switch: an accepted move that is
  not a capture (called for its destination), and the head of the inner loop when no
  capture is left from the current square (called for that square). Conversely an
  iteration in which the player to move changes is one of these two, and its board is
  the one \<open>maybePromote\<close> returns; an iteration in which the player stays the same calls
  no promotion and leaves the board as it was or as \<open>applyMove\<close> of a capture made it, so
  a square reached in the middle of a chain is not promoted. Along every run, each
  switch of players directly follows one promotion call for the resting square, and
  there is no other promotion call.
\<close>

theorem promotion_at_final_square:
  "maybePromote b r c =
     (if b r c = W_MAN \<and> r = 7 then setCell b r c W_KING
      else if b r c = B_MAN \<and> r = 0 then setCell b r c B_KING
      else b) \<and>
   maybePromote b r c r c =
     (if b r c = W_MAN \<and> r = 7 then W_KING
      else if b r c = B_MAN \<and> r = 0 then B_KING
      else b r c) \<and>
   (step g toks = (g', toks', evs) \<and> PromoteCall pr pc \<in> set evs \<longrightarrow>
      turn g' = opponent (turn g) \<and> phase g' = TurnLoop \<and>
      ((phase g = ChainLoop pr pc \<and> captureMovesFrom (board g) pr pc (turn g) = [] \<and>
        evs = [PromoteCall pr pc, TurnSwitch] \<and> board g' = maybePromote (board g) pr pc) \<or>
       (\<exists>mv \<in> set (allLegalMoves (board g) (turn g)).
          phase g = TurnLoop \<and> \<not> isCapture mv \<and> tr mv = pr \<and> tc mv = pc \<and>
          evs = [Applied mv, PromoteCall pr pc, TurnSwitch] \<and>
          board g' = maybePromote (applyMove (board g) mv) pr pc))) \<and>
   (step g toks = (g', toks', evs) \<and> Applied mv \<in> set evs \<and> isCapture mv \<longrightarrow>
      evs = [Applied mv] \<and> board g' = applyMove (board g) mv \<and>
      phase g' = ChainLoop (tr mv) (tc mv) \<and> turn g' = turn g) \<and>
   (run n g toks = (g'', toks'', evs'') \<longrightarrow> promotesAtRest (restingSquare (phase g)) evs'') \<and>
   (step g toks = (g', toks', evs) \<and> turn g' \<noteq> turn g \<longrightarrow>
      (\<exists>qr qc.
         (phase g = ChainLoop qr qc \<and> captureMovesFrom (board g) qr qc (turn g) = [] \<and>
          evs = [PromoteCall qr qc, TurnSwitch] \<and> board g' = maybePromote (board g) qr qc) \<or>
         (\<exists>sm \<in> set (allLegalMoves (board g) (turn g)).
            phase g = TurnLoop \<and> \<not> isCapture sm \<and> tr sm = qr \<and> tc sm = qc \<and>
            evs = [Applied sm, PromoteCall qr qc, TurnSwitch] \<and>
            board g' = maybePromote (applyMove (board g) sm) qr qc))) \<and>
   (step g toks = (g', toks', evs) \<and> turn g' = turn g \<longrightarrow>
      (\<forall>qr qc. PromoteCall qr qc \<notin> set evs) \<and>
      (board g' = board g \<or>
       (\<exists>cm. isCapture cm \<and> evs = [Applied cm] \<and> board g' = applyMove (board g) cm))) \<and>
   (phase g = ChainLoop cr0 cc0 \<and> captureMovesFrom (board g) cr0 cc0 (turn g) = [] \<longrightarrow>
      step g toks =
        (g\<lparr>board := maybePromote (board g) cr0 cc0, turn := opponent (turn g),
           phase := TurnLoop\<rparr>, toks, [PromoteCall cr0 cc0, TurnSwitch])) \<and>
   (phase g = TurnLoop \<and> countPieces (board g) WHITE \<noteq> 0 \<and> countPieces (board g) BLACK \<noteq> 0 \<and>
    parseSquare t1 = Some (fr sv, fc sv) \<and> parseSquare t2 = Some (tr sv, tc sv) \<and>
    isDarkSquare (tr sv) (tc sv) \<and>
    sv \<in> set (allLegalMoves (board g) (turn g)) \<and> \<not> isCapture sv \<longrightarrow>
      step g (t1 # t2 # rest) =
        (g\<lparr>board := maybePromote (applyMove (board g) sv) (tr sv) (tc sv),
           turn := opponent (turn g), phase := TurnLoop\<rparr>, rest,
         [Applied sv, PromoteCall (tr sv) (tc sv), TurnSwitch]))"
proof -
  have a: "step g toks = (g', toks', evs) \<and> PromoteCall pr pc \<in> set evs \<longrightarrow>
      turn g' = opponent (turn g) \<and> phase g' = TurnLoop \<and>
      ((phase g = ChainLoop pr pc \<and> captureMovesFrom (board g) pr pc (turn g) = [] \<and>
        evs = [PromoteCall pr pc, TurnSwitch] \<and> board g' = maybePromote (board g) pr pc) \<or>
       (\<exists>mv \<in> set (allLegalMoves (board g) (turn g)).
          phase g = TurnLoop \<and> \<not> isCapture mv \<and> tr mv = pr \<and> tc mv = pc \<and>
          evs = [Applied mv, PromoteCall pr pc, TurnSwitch] \<and>
          board g' = maybePromote (applyMove (board g) mv) pr pc))"
  proof (intro impI, elim conjE)
    assume st: "step g toks = (g', toks', evs)" and p: "PromoteCall pr pc \<in> set evs"
    from step_cases [OF st] p show "turn g' = opponent (turn g) \<and> phase g' = TurnLoop \<and>
      ((phase g = ChainLoop pr pc \<and> captureMovesFrom (board g) pr pc (turn g) = [] \<and>
        evs = [PromoteCall pr pc, TurnSwitch] \<and> board g' = maybePromote (board g) pr pc) \<or>
       (\<exists>mv \<in> set (allLegalMoves (board g) (turn g)).
          phase g = TurnLoop \<and> \<not> isCapture mv \<and> tr mv = pr \<and> tc mv = pc \<and>
          evs = [Applied mv, PromoteCall pr pc, TurnSwitch] \<and>
          board g' = maybePromote (applyMove (board g) mv) pr pc))"
      by auto
  qed
  have b: "step g toks = (g', toks', evs) \<and> Applied mv \<in> set evs \<and> isCapture mv \<longrightarrow>
      evs = [Applied mv] \<and> board g' = applyMove (board g) mv \<and>
      phase g' = ChainLoop (tr mv) (tc mv) \<and> turn g' = turn g"
  proof (intro impI, elim conjE)
    assume st: "step g toks = (g', toks', evs)" and p: "Applied mv \<in> set evs" "isCapture mv"
    from step_cases [OF st] p show "evs = [Applied mv] \<and> board g' = applyMove (board g) mv \<and>
      phase g' = ChainLoop (tr mv) (tc mv) \<and> turn g' = turn g"
      by auto
  qed
  have cell: "maybePromote b r c r c =
     (if b r c = W_MAN \<and> r = 7 then W_KING
      else if b r c = B_MAN \<and> r = 0 then B_KING
      else b r c)"
    by (auto simp: maybePromote_apply)
  note c = step_turn_changes [of g toks g' toks' evs]
  note d = step_turn_stays [of g toks g' toks' evs]
  note e = chain_end_step [of g cr0 cc0 toks]
  note f = simple_move_step [of g t1 sv t2 rest]
  show ?thesis
    apply (intro conjI)
            apply (rule maybePromote_eq)
           apply (rule cell)
          apply (rule a)
         apply (rule b)
        apply (simp add: run_trace)
       apply (intro impI, elim conjE, erule (1) c)
      apply (intro impI, elim conjE, erule (1) d)
     apply (intro impI, elim conjE, erule (1) e)
    apply (intro impI, elim conjE, rule f, assumption+)
    done
qed

theorem promotion_at_final_square_witness:
  "applyMove midChainBoard \<lparr>fr = 5, fc = 4, tr = 7, tc = 6, isCapture = True, cr = 6, cc = 5\<rparr>
     7 6 = W_MAN \<and>
   run 2 \<lparr>board = midChainBoard, turn = WHITE, phase = ChainLoop 5 4\<rparr> [''g8''] =
     (\<lparr>board = maybePromote (applyMove midChainBoard
          \<lparr>fr = 5, fc = 4, tr = 7, tc = 6, isCapture = True, cr = 6, cc = 5\<rparr>) 7 6,
       turn = BLACK, phase = TurnLoop\<rparr>, [],
      [Applied \<lparr>fr = 5, fc = 4, tr = 7, tc = 6, isCapture = True, cr = 6, cc = 5\<rparr>,
       PromoteCall 7 6, TurnSwitch]) \<and>
   maybePromote (applyMove midChainBoard
          \<lparr>fr = 5, fc = 4, tr = 7, tc = 6, isCapture = True, cr = 6, cc = 5\<rparr>) 7 6 7 6 = W_KING \<and>
   promotesAtRest (Some (5, 4))
      [Applied \<lparr>fr = 5, fc = 4, tr = 7, tc = 6, isCapture = True, cr = 6, cc = 5\<rparr>,
       PromoteCall 7 6, TurnSwitch] \<and>
   step \<lparr>board = applyMove midChainBoard
            \<lparr>fr = 5, fc = 4, tr = 7, tc = 6, isCapture = True, cr = 6, cc = 5\<rparr>,
         turn = WHITE, phase = ChainLoop 7 6\<rparr> [] =
     (\<lparr>board = maybePromote (applyMove midChainBoard
          \<lparr>fr = 5, fc = 4, tr = 7, tc = 6, isCapture = True, cr = 6, cc = 5\<rparr>) 7 6,
       turn = BLACK, phase = TurnLoop\<rparr>, [], [PromoteCall 7 6, TurnSwitch]) \<and>
   step \<lparr>board = promoBoard, turn = WHITE, phase = TurnLoop\<rparr> [''b7'', ''c8''] =
     (\<lparr>board = maybePromote (applyMove promoBoard
          \<lparr>fr = 6, fc = 1, tr = 7, tc = 2, isCapture = False, cr = - 1, cc = - 1\<rparr>) 7 2,
       turn = BLACK, phase = TurnLoop\<rparr>, [],
      [Applied \<lparr>fr = 6, fc = 1, tr = 7, tc = 2, isCapture = False, cr = - 1, cc = - 1\<rparr>,
       PromoteCall 7 2, TurnSwitch]) \<and>
   maybePromote (applyMove promoBoard
          \<lparr>fr = 6, fc = 1, tr = 7, tc = 2, isCapture = False, cr = - 1, cc = - 1\<rparr>) 7 2 7 2 = W_KING"
proof -
  let ?m = "\<lparr>fr = 5, fc = 4, tr = 7, tc = 6, isCapture = True, cr = 6, cc = 5\<rparr>"
  let ?s = "\<lparr>fr = 6, fc = 1, tr = 7, tc = 2, isCapture = False, cr = - 1, cc = - 1\<rparr>"
  let ?g = "\<lparr>board = midChainBoard, turn = WHITE, phase = ChainLoop 5 4\<rparr>"
  let ?h = "\<lparr>board = applyMove midChainBoard ?m, turn = WHITE, phase = ChainLoop 7 6\<rparr>"
  let ?p = "\<lparr>board = promoBoard, turn = WHITE, phase = TurnLoop\<rparr>"
  have s1: "step ?g [''g8''] = (?h, [], [Applied ?m])"
    by (simp add: step_def chainIter_def midChainBoard_captures parse_examples)
  have s2: "step ?h [] =
      (\<lparr>board = maybePromote (applyMove midChainBoard ?m) 7 6, turn = BLACK, phase = TurnLoop\<rparr>,
       [], [PromoteCall 7 6, TurnSwitch])"
    by (simp add: step_def chainIter_def backRank_captures endTurn_def opponent_def)
  have rn: "run 2 ?g [''g8''] =
      (\<lparr>board = maybePromote (applyMove midChainBoard ?m) 7 6, turn = BLACK, phase = TurnLoop\<rparr>,
       [], [Applied ?m, PromoteCall 7 6, TurnSwitch])"
    by (simp add: numeral_2_eq_2 s1 s2)
  have cell: "applyMove midChainBoard ?m 7 6 = W_MAN"
    by (simp add: applyMove_apply midChainBoard_cells)
  have cell2: "applyMove promoBoard ?s 7 2 = W_MAN"
    by (simp add: applyMove_apply promoBoard_cells)
  note c2 = promotion_at_final_square [THEN conjunct2, THEN conjunct1]
  note c5 = promotion_at_final_square [THEN conjunct2, THEN conjunct2, THEN conjunct2,
      THEN conjunct2, THEN conjunct1]
  note c8 = promotion_at_final_square [THEN conjunct2, THEN conjunct2, THEN conjunct2,
      THEN conjunct2, THEN conjunct2, THEN conjunct2, THEN conjunct2, THEN conjunct1]
  note c9 = promotion_at_final_square [THEN conjunct2, THEN conjunct2, THEN conjunct2,
      THEN conjunct2, THEN conjunct2, THEN conjunct2, THEN conjunct2, THEN conjunct2]
  from c2 [of "applyMove midChainBoard ?m" 7 6] cell
  have k1: "maybePromote (applyMove midChainBoard ?m) 7 6 7 6 = W_KING" by simp
  from c5 [of 2 ?g "[''g8'']"] rn
  have k2: "promotesAtRest (Some (5, 4)) [Applied ?m, PromoteCall 7 6, TurnSwitch]"
    by (simp add: restingSquare_def)
  from c8 [of ?h 7 6 "[]"]
  have w2: "step ?h [] =
      (\<lparr>board = maybePromote (applyMove midChainBoard ?m) 7 6, turn = BLACK, phase = TurnLoop\<rparr>,
       [], [PromoteCall 7 6, TurnSwitch])"
    by (simp add: backRank_captures opponent_def)
  from c9 [of ?p "''b7''" ?s "''c8''" "[]"]
  have w3: "step ?p [''b7'', ''c8''] =
      (\<lparr>board = maybePromote (applyMove promoBoard ?s) 7 2, turn = BLACK, phase = TurnLoop\<rparr>, [],
       [Applied ?s, PromoteCall 7 2, TurnSwitch])"
    by (simp add: promoBoard_counts promoBoard_legal parse_promo isDark_promo opponent_def)
  from c2 [of "applyMove promoBoard ?s" 7 2] cell2
  have k3: "maybePromote (applyMove promoBoard ?s) 7 2 7 2 = W_KING" by simp
  from cell rn k1 k2 w2 w3 k3 show ?thesis by simp
qed

text \<open>
  Claim C9. An iteration that prints a rejection leaves the whole state (board, player to
  move, loop and chain position) as it was and stays inside the loops, so the next
  iteration reads input again. Every listed cause is such a rejection: in the outer loop
  a token that does not parse, a destination that is not dark, an origin that does not
  hold a piece of the player, an occupied destination, a pair of squares that matches no
  legal move; in the inner loop a token that does not parse or a square that is not a
  forced landing square.
\<close>

theorem rejection_leaves_state:
  "(step g toks = (g', toks', evs) \<and> Rejected x \<in> set evs \<longrightarrow>
      g' = g \<and> evs = [Rejected x] \<and> phase g' \<noteq> Finished) \<and>
   (phase g = TurnLoop \<and> countPieces (board g) WHITE \<noteq> 0 \<and> countPieces (board g) BLACK \<noteq> 0 \<and>
    allLegalMoves (board g) (turn g) \<noteq> [] \<longrightarrow>
      (parseSquare t1 = None \<or> parseSquare t2 = None \<longrightarrow>
         step g (t1 # t2 # rest) = (g, rest, [Rejected BadFormat])) \<and>
      (\<forall>r0 c0 r1 c1.
         parseSquare t1 = Some (r0, c0) \<and> parseSquare t2 = Some (r1, c1) \<and>
         (\<not> isDarkSquare r1 c1 \<or> \<not> belongsTo (board g r0 c0) (turn g) \<or>
          board g r1 c1 \<noteq> EMPTY \<or>
          (\<forall>m \<in> set (allLegalMoves (board g) (turn g)). \<not> sameMove m r0 c0 r1 c1)) \<longrightarrow>
         (\<exists>y. y \<in> {NotDarkSquare, NotOwnPiece, DestinationOccupied, NotInLegalSet} \<and>
              step g (t1 # t2 # rest) = (g, rest, [Rejected y])))) \<and>
   (phase g = ChainLoop r c \<and> captureMovesFrom (board g) r c (turn g) \<noteq> [] \<and>
    (parseSquare t = None \<or>
     (\<exists>nr nc. parseSquare t = Some (nr, nc) \<and>
        (\<forall>m \<in> set (captureMovesFrom (board g) r c (turn g)). \<not> (tr m = nr \<and> tc m = nc)))) \<longrightarrow>
      (\<exists>y. y \<in> {BadSquare, NotAForcedLanding} \<and> step g (t # rest) = (g, rest, [Rejected y])))"
proof -
  have a: "step g toks = (g', toks', evs) \<and> Rejected x \<in> set evs \<longrightarrow>
      g' = g \<and> evs = [Rejected x] \<and> phase g' \<noteq> Finished"
  proof (intro impI, elim conjE)
    assume st: "step g toks = (g', toks', evs)" and p: "Rejected x \<in> set evs"
    from step_cases [OF st] p show "g' = g \<and> evs = [Rejected x] \<and> phase g' \<noteq> Finished"
      by auto
  qed
  have b: "(parseSquare t1 = None \<or> parseSquare t2 = None \<longrightarrow>
         step g (t1 # t2 # rest) = (g, rest, [Rejected BadFormat])) \<and>
      (\<forall>r0 c0 r1 c1.
         parseSquare t1 = Some (r0, c0) \<and> parseSquare t2 = Some (r1, c1) \<and>
         (\<not> isDarkSquare r1 c1 \<or> \<not> belongsTo (board g r0 c0) (turn g) \<or>
          board g r1 c1 \<noteq> EMPTY \<or>
          (\<forall>m \<in> set (allLegalMoves (board g) (turn g)). \<not> sameMove m r0 c0 r1 c1)) \<longrightarrow>
         (\<exists>y. y \<in> {NotDarkSquare, NotOwnPiece, DestinationOccupied, NotInLegalSet} \<and>
              step g (t1 # t2 # rest) = (g, rest, [Rejected y])))"
    if ph: "phase g = TurnLoop" and nz: "countPieces (board g) WHITE \<noteq> 0"
      "countPieces (board g) BLACK \<noteq> 0" and lg: "allLegalMoves (board g) (turn g) \<noteq> []"
  proof (intro conjI impI allI)
    assume "parseSquare t1 = None \<or> parseSquare t2 = None"
    with ph nz lg show "step g (t1 # t2 # rest) = (g, rest, [Rejected BadFormat])"
      by (auto simp: step_def turnIter_def Let_def split: option.splits)
  next
    fix r0 c0 r1 c1
    assume h: "parseSquare t1 = Some (r0, c0) \<and> parseSquare t2 = Some (r1, c1) \<and>
         (\<not> isDarkSquare r1 c1 \<or> \<not> belongsTo (board g r0 c0) (turn g) \<or>
          board g r1 c1 \<noteq> EMPTY \<or>
          (\<forall>m \<in> set (allLegalMoves (board g) (turn g)). \<not> sameMove m r0 c0 r1 c1))"
    then have "(\<forall>m \<in> set (allLegalMoves (board g) (turn g)). \<not> sameMove m r0 c0 r1 c1) \<longrightarrow>
        find (\<lambda>m. sameMove m r0 c0 r1 c1) (allLegalMoves (board g) (turn g)) = None"
      by (simp add: find_None_iff)
    with h ph nz lg
    show "\<exists>y. y \<in> {NotDarkSquare, NotOwnPiece, DestinationOccupied, NotInLegalSet} \<and>
              step g (t1 # t2 # rest) = (g, rest, [Rejected y])"
      by (auto simp: step_def turnIter_def Let_def)
  qed
  have c: "\<exists>y. y \<in> {BadSquare, NotAForcedLanding} \<and> step g (t # rest) = (g, rest, [Rejected y])"
    if ph: "phase g = ChainLoop r c" and caps: "captureMovesFrom (board g) r c (turn g) \<noteq> []"
      and bad: "parseSquare t = None \<or>
     (\<exists>nr nc. parseSquare t = Some (nr, nc) \<and>
        (\<forall>m \<in> set (captureMovesFrom (board g) r c (turn g)). \<not> (tr m = nr \<and> tc m = nc)))"
    using bad
  proof
    assume "parseSquare t = None"
    with ph caps show ?thesis by (simp add: step_def chainIter_def Let_def)
  next
    assume "\<exists>nr nc. parseSquare t = Some (nr, nc) \<and>
        (\<forall>m \<in> set (captureMovesFrom (board g) r c (turn g)). \<not> (tr m = nr \<and> tc m = nc))"
    then obtain nr nc where ps: "parseSquare t = Some (nr, nc)"
      and no: "\<forall>m \<in> set (captureMovesFrom (board g) r c (turn g)). \<not> (tr m = nr \<and> tc m = nc)"
      by blast
    from no have "find (\<lambda>m. tr m = nr \<and> tc m = nc) (captureMovesFrom (board g) r c (turn g))
                   = None"
      by (simp add: find_None_iff)
    with ph caps ps show ?thesis by (simp add: step_def chainIter_def Let_def)
  qed
  from a b c show ?thesis by blast
qed

theorem rejection_leaves_state_witness:
  "step \<lparr>board = captureBoard, turn = WHITE, phase = TurnLoop\<rparr> [''b3'', ''a4''] =
     (\<lparr>board = captureBoard, turn = WHITE, phase = TurnLoop\<rparr>, [], [Rejected NotInLegalSet]) \<and>
   step \<lparr>board = captureBoard, turn = WHITE, phase = TurnLoop\<rparr> [''z9'', ''a4''] =
     (\<lparr>board = captureBoard, turn = WHITE, phase = TurnLoop\<rparr>, [], [Rejected BadFormat]) \<and>
   (\<exists>y. step \<lparr>board = midChainBoard, turn = WHITE, phase = ChainLoop 5 4\<rparr> [''a1''] =
     (\<lparr>board = midChainBoard, turn = WHITE, phase = ChainLoop 5 4\<rparr>, [], [Rejected y]))"
  using rejection_leaves_state
      [where g = "\<lparr>board = captureBoard, turn = WHITE, phase = TurnLoop\<rparr>"
         and toks = "[''b3'', ''a4'']"
         and g' = "\<lparr>board = captureBoard, turn = WHITE, phase = TurnLoop\<rparr>"
         and toks' = "[]" and evs = "[Rejected NotInLegalSet]" and x = NotInLegalSet
         and ?t1.0 = "''z9''" and ?t2.0 = "''a4''" and rest = "[]"
         and r = 5 and c = 4 and t = "''a1''"]
    rejection_leaves_state
      [where g = "\<lparr>board = midChainBoard, turn = WHITE, phase = ChainLoop 5 4\<rparr>"
         and toks = "[]" and g' = "\<lparr>board = midChainBoard, turn = WHITE, phase = TurnLoop\<rparr>"
         and toks' = "[]" and evs = "[]" and x = BadSquare
         and r = 5 and c = 4 and t = "''a1''" and rest = "[]"]
  by (auto simp: captureBoard_rejects captureBoard_counts captureBoard_legal
      midChainBoard_captures parse_examples)

end
